theory Spec2Isabelle
  imports Complex_Main
begin

section \<open>JavaScript values of the form state\<close>

text \<open>
  A JavaScript number is an IEEE binary64 value: NaN, an infinity, or a finite value, taken
  here as the rational it denotes. The two zeros are one value: the code below never
  divides by a zero nor prints its sign.
\<close>

datatype number = NaN | PInf | NInf | Fin rat

text \<open>A field of an item during editing: missing (\<open>undefined\<close>), \<open>null\<close>, or a number.\<close>

datatype jsval = Undefined | Null | Num number

subsection \<open>Rounding to binary64\<close>

text \<open>
  Every arithmetic operation of the language returns the exact result rounded to the
  nearest binary64 value, ties to the even significand. For \<open>a = \<bar>x\<bar>\<close> with
  \<open>2^e \<le> a < 2^(e+1)\<close> the binary64 values around \<open>x\<close> are the multiples of
  \<open>2^(e-52)\<close>; below \<open>2^(-1022)\<close> (the subnormal range) they are the multiples of
  \<open>2^(-1074)\<close>. \<open>halvings\<close> finds \<open>e\<close> for \<open>a \<ge> 1\<close> and \<open>doublings\<close> finds
  \<open>-e\<close> for \<open>a < 1\<close>, stopping at 1022. A rounded result of magnitude \<open>2^1024\<close> or
  more is an infinity.
\<close>

fun halvings :: "nat \<Rightarrow> rat \<Rightarrow> nat" where
  "halvings 0 a = 0"
| "halvings (Suc n) a = (if 2 \<le> a then Suc (halvings n (a / 2)) else 0)"

fun doublings :: "nat \<Rightarrow> rat \<Rightarrow> nat" where
  "doublings 0 a = 0"
| "doublings (Suc n) a = (if a < 1 then Suc (doublings n (2 * a)) else 0)"

definition ulp :: "rat \<Rightarrow> rat" where
  "ulp a = (if 1 \<le> a then 2 ^ halvings 1024 a / 2 ^ 52 else 1 / 2 ^ (doublings 1022 a + 52))"

text \<open>The nearest integer, a tie going to the even one.\<close>

definition rne :: "rat \<Rightarrow> int" where
  "rne y =
     (let f = \<lfloor>y\<rfloor>; d = y - of_int f
      in if d < 1 / 2 then f else if 1 / 2 < d then f + 1 else if even f then f else f + 1)"

definition round64 :: "rat \<Rightarrow> number" where
  "round64 x =
     (let y = of_int (rne (x / ulp \<bar>x\<bar>)) * ulp \<bar>x\<bar>
      in if 2 ^ 1024 \<le> y then PInf else if y \<le> - (2 ^ 1024) then NInf else Fin y)"

text \<open>
  Exact arithmetic, the arithmetic in which the specification writes its sums: no rounding
  and no overflow.
\<close>

definition exact :: "rat \<Rightarrow> number" where
  "exact x = Fin x"

subsection \<open>The operators the calculator uses\<close>

text \<open>
  Each operator takes the rounding of finite results as its first argument: \<open>round64\<close> is
  the language's, and is what the code runs on; \<open>exact\<close> gives the same expressions over
  exact arithmetic.
\<close>

fun jneg :: "number \<Rightarrow> number" where
  "jneg NaN = NaN"
| "jneg PInf = NInf"
| "jneg NInf = PInf"
| "jneg (Fin r) = Fin (- r)"

text \<open>\<open>x * y\<close>: an infinity times zero is NaN, otherwise the signs multiply.\<close>

fun signed_inf :: "rat \<Rightarrow> number \<Rightarrow> number" where
  "signed_inf r x = (if r = 0 then NaN else if 0 < r then x else jneg x)"

fun jmul :: "(rat \<Rightarrow> number) \<Rightarrow> number \<Rightarrow> number \<Rightarrow> number" where
  "jmul rnd NaN y = NaN"
| "jmul rnd (Fin a) NaN = NaN"
| "jmul rnd (Fin a) (Fin b) = rnd (a * b)"
| "jmul rnd (Fin a) PInf = signed_inf a PInf"
| "jmul rnd (Fin a) NInf = signed_inf a NInf"
| "jmul rnd PInf NaN = NaN"
| "jmul rnd PInf (Fin b) = signed_inf b PInf"
| "jmul rnd PInf PInf = PInf"
| "jmul rnd PInf NInf = NInf"
| "jmul rnd NInf NaN = NaN"
| "jmul rnd NInf (Fin b) = signed_inf b NInf"
| "jmul rnd NInf PInf = NInf"
| "jmul rnd NInf NInf = PInf"

text \<open>\<open>x + y\<close>: opposite infinities add to NaN.\<close>

fun jadd :: "(rat \<Rightarrow> number) \<Rightarrow> number \<Rightarrow> number \<Rightarrow> number" where
  "jadd rnd NaN y = NaN"
| "jadd rnd (Fin a) NaN = NaN"
| "jadd rnd (Fin a) (Fin b) = rnd (a + b)"
| "jadd rnd (Fin a) PInf = PInf"
| "jadd rnd (Fin a) NInf = NInf"
| "jadd rnd PInf NaN = NaN"
| "jadd rnd PInf NInf = NaN"
| "jadd rnd PInf PInf = PInf"
| "jadd rnd PInf (Fin b) = PInf"
| "jadd rnd NInf NaN = NaN"
| "jadd rnd NInf PInf = NaN"
| "jadd rnd NInf NInf = NInf"
| "jadd rnd NInf (Fin b) = NInf"

text \<open>\<open>x / 100\<close>, the only division of the source.\<close>

fun jdiv100 :: "(rat \<Rightarrow> number) \<Rightarrow> number \<Rightarrow> number" where
  "jdiv100 rnd NaN = NaN"
| "jdiv100 rnd PInf = PInf"
| "jdiv100 rnd NInf = NInf"
| "jdiv100 rnd (Fin r) = rnd (r / 100)"

text \<open>
  \<open>v || 0\<close> on a field typed as a number: \<open>undefined\<close>, \<open>null\<close>, NaN and zero are
  falsy, so the right operand \<open>0\<close> is the result; any other number is truthy and is returned.
\<close>

fun or0 :: "jsval \<Rightarrow> number" where
  "or0 Undefined = Fin 0"
| "or0 Null = Fin 0"
| "or0 (Num x) = (if x = NaN \<or> x = Fin 0 then Fin 0 else x)"

section \<open>Line items and the totals calculator\<close>

text \<open>
  An element of \<open>lineItems\<close>. A string field is \<open>None\<close> when the property is
  \<open>undefined\<close>. The field \<open>id\<close> of the source is \<open>id'\<close> here.
\<close>

record LineItem =
  id' :: "string option"
  description :: "string option"
  quantity :: jsval
  unitPrice :: jsval
  vatRate :: jsval
  vatNature :: "string option"

record Totals =
  subtotal :: number
  vatTotal :: number
  total :: number

text \<open>The callback of \<open>watchedLineItems.reduce\<close>.\<close>

definition totals_step :: "(rat \<Rightarrow> number) \<Rightarrow> Totals \<Rightarrow> LineItem \<Rightarrow> Totals" where
  "totals_step rnd acc item =
     (let lineTotal = jmul rnd (or0 (quantity item)) (or0 (unitPrice item));
          vatAmount = jmul rnd lineTotal (jdiv100 rnd (or0 (vatRate item)))
      in \<lparr> subtotal = jadd rnd (subtotal acc) lineTotal,
           vatTotal = jadd rnd (vatTotal acc) vatAmount,
           total = jadd rnd (total acc) (jadd rnd lineTotal vatAmount) \<rparr>)"

definition totals_in :: "(rat \<Rightarrow> number) \<Rightarrow> LineItem list \<Rightarrow> Totals" where
  "totals_in rnd watchedLineItems =
     foldl (totals_step rnd) \<lparr> subtotal = Fin 0, vatTotal = Fin 0, total = Fin 0 \<rparr>
       watchedLineItems"

text \<open>The calculator of the component: the reduction in the language's arithmetic.\<close>

definition totals :: "LineItem list \<Rightarrow> Totals" where
  "totals watchedLineItems = totals_in round64 watchedLineItems"

text \<open>The two values the callback names, for one item.\<close>

definition lineTotal_of :: "(rat \<Rightarrow> number) \<Rightarrow> LineItem \<Rightarrow> number" where
  "lineTotal_of rnd item = jmul rnd (or0 (quantity item)) (or0 (unitPrice item))"

definition vatAmount_of :: "(rat \<Rightarrow> number) \<Rightarrow> LineItem \<Rightarrow> number" where
  "vatAmount_of rnd item = jmul rnd (lineTotal_of rnd item) (jdiv100 rnd (or0 (vatRate item)))"

subsection \<open>The totals as the specification words them\<close>

text \<open>
  The decimal a numeric field stands for, a missing field counting as 0, and the sums of the
  specification over exact rationals:
  subtotal = \<Sigma>(quantity \<times> unitPrice), vatTotal = \<Sigma>(quantity \<times> unitPrice \<times> vatRate/100).
\<close>

fun num_of :: "jsval \<Rightarrow> rat" where
  "num_of (Num (Fin r)) = r"
| "num_of v = 0"

definition spec_subtotal :: "LineItem list \<Rightarrow> rat" where
  "spec_subtotal items = (\<Sum>i\<leftarrow>items. num_of (quantity i) * num_of (unitPrice i))"

definition spec_vatTotal :: "LineItem list \<Rightarrow> rat" where
  "spec_vatTotal items =
     (\<Sum>i\<leftarrow>items. num_of (quantity i) * num_of (unitPrice i) * num_of (vatRate i) / 100)"

text \<open>A field that holds a decimal, and an item whose three numeric fields do.\<close>

fun is_decimal :: "jsval \<Rightarrow> bool" where
  "is_decimal (Num (Fin r)) = True"
| "is_decimal v = False"

definition decimal_item :: "LineItem \<Rightarrow> bool" where
  "decimal_item i = (is_decimal (quantity i) \<and> is_decimal (unitPrice i) \<and> is_decimal (vatRate i))"

text \<open>
  A field that is missing, null, NaN or a finite number: every field that is defined as a
  number is finite.
\<close>

fun defined_finite :: "jsval \<Rightarrow> bool" where
  "defined_finite (Num PInf) = False"
| "defined_finite (Num NInf) = False"
| "defined_finite v = True"

definition finite_fields :: "LineItem \<Rightarrow> bool" where
  "finite_fields i =
     (defined_finite (quantity i) \<and> defined_finite (unitPrice i) \<and> defined_finite (vatRate i))"

text \<open>An item whose three numeric fields are at most \<open>b\<close> in absolute value.\<close>

definition bounded_item :: "rat \<Rightarrow> LineItem \<Rightarrow> bool" where
  "bounded_item b i =
     (\<bar>num_of (quantity i)\<bar> \<le> b \<and> \<bar>num_of (unitPrice i)\<bar> \<le> b \<and> \<bar>num_of (vatRate i)\<bar> \<le> b)"

text \<open>A returned number that is finite, and its value.\<close>

fun is_finite :: "number \<Rightarrow> bool" where
  "is_finite (Fin r) = True"
| "is_finite x = False"

fun value_of :: "number \<Rightarrow> rat" where
  "value_of (Fin r) = r"
| "value_of x = 0"

text \<open>
  The floating-point tolerance: for a sum of \<open>n\<close> terms whose absolute values add up to
  \<open>w\<close>, a relative part of \<open>n * 2^(-49)\<close> and an absolute part for results in the
  subnormal range.
\<close>

definition abs_subtotal :: "LineItem list \<Rightarrow> rat" where
  "abs_subtotal items = (\<Sum>i\<leftarrow>items. \<bar>num_of (quantity i) * num_of (unitPrice i)\<bar>)"

definition abs_vatTotal :: "LineItem list \<Rightarrow> rat" where
  "abs_vatTotal items =
     (\<Sum>i\<leftarrow>items. \<bar>num_of (quantity i) * num_of (unitPrice i) * num_of (vatRate i) / 100\<bar>)"

definition tolerance :: "nat \<Rightarrow> rat \<Rightarrow> rat" where
  "tolerance n w = of_nat n * (w / 2 ^ 49 + 1 / 2 ^ 900)"

text \<open>
  The constants of the error analysis: the unit roundoff, the largest error of a result in
  the subnormal range, a magnitude safely inside the range, the bound on the fields and on
  the number of items under which the analysis is carried out, and the error of a sum of
  \<open>n\<close> terms of total weight \<open>w\<close> whose terms carry a relative error \<open>\<alpha>\<close> and an
  absolute error \<open>\<beta>\<close>.
\<close>

definition u64 :: rat where
  "u64 = 1 / 2 ^ 53"

definition eta64 :: rat where
  "eta64 = 1 / 2 ^ 1075"

definition top64 :: rat where
  "top64 = 2 ^ 1023"

definition field_bound :: rat where
  "field_bound = 2 ^ 64"

definition items_bound :: nat where
  "items_bound = 2 ^ 32"

definition sum_error :: "rat \<Rightarrow> rat \<Rightarrow> nat \<Rightarrow> rat \<Rightarrow> rat" where
  "sum_error \<alpha> \<beta> n w = of_nat n * (1 + u64) ^ n * ((\<alpha> + u64) * w + (\<beta> + eta64))"

text \<open>An item with each missing numeric field replaced by 0.\<close>

fun zero_if_missing :: "jsval \<Rightarrow> jsval" where
  "zero_if_missing Undefined = Num (Fin 0)"
| "zero_if_missing v = v"

definition fill_missing :: "LineItem \<Rightarrow> LineItem" where
  "fill_missing i =
     i \<lparr> quantity := zero_if_missing (quantity i),
         unitPrice := zero_if_missing (unitPrice i),
         vatRate := zero_if_missing (vatRate i) \<rparr>"

text \<open>An item with each null or NaN numeric field made missing.\<close>

fun missing_if_nan_or_null :: "jsval \<Rightarrow> jsval" where
  "missing_if_nan_or_null Null = Undefined"
| "missing_if_nan_or_null (Num NaN) = Undefined"
| "missing_if_nan_or_null v = v"

definition drop_nan_null :: "LineItem \<Rightarrow> LineItem" where
  "drop_nan_null i =
     i \<lparr> quantity := missing_if_nan_or_null (quantity i),
         unitPrice := missing_if_nan_or_null (unitPrice i),
         vatRate := missing_if_nan_or_null (vatRate i) \<rparr>"

section \<open>The line-item list editor\<close>

text \<open>
  The object literal of \<open>defaultValues.lineItems\<close> and of \<open>addLineItem\<close>; \<open>uuid\<close> is
  what \<open>crypto.randomUUID()\<close> returned for this call.
\<close>

definition newLineItem :: "string \<Rightarrow> LineItem" where
  "newLineItem uuid =
     \<lparr> id' = Some uuid, description = Some '''', quantity = Num (Fin 1),
       unitPrice = Num (Fin 0), vatRate = Num (Fin 22), vatNature = None \<rparr>"

definition defaultLineItems :: "string \<Rightarrow> LineItem list" where
  "defaultLineItems uuid = [newLineItem uuid]"

text \<open>
  \<open>append\<close> and \<open>remove\<close> of the field array: \<open>append\<close> adds at the end, \<open>remove(index)\<close>
  splices one element out and leaves the array as it is when the index is out of range.
\<close>

definition append' :: "LineItem list \<Rightarrow> LineItem \<Rightarrow> LineItem list" where
  "append' flds item = flds @ [item]"

definition remove' :: "nat \<Rightarrow> LineItem list \<Rightarrow> LineItem list" where
  "remove' index flds = take index flds @ drop (Suc index) flds"

definition addLineItem :: "string \<Rightarrow> LineItem list \<Rightarrow> LineItem list" where
  "addLineItem uuid flds = append' flds (newLineItem uuid)"

text \<open>
  The two buttons. The remove button of a row is rendered only under
  \<open>fields.length > 1\<close>; where it is not rendered the click cannot happen and the list stays.
\<close>

datatype event = Add string | Remove nat

fun fire :: "LineItem list \<Rightarrow> event \<Rightarrow> LineItem list" where
  "fire flds (Add uuid) = addLineItem uuid flds"
| "fire flds (Remove index) =
     (if length flds > 1 then remove' index flds else flds)"

definition run :: "string \<Rightarrow> event list \<Rightarrow> LineItem list" where
  "run uuid events = foldl fire (defaultLineItems uuid) events"

section \<open>The validation schema\<close>

text \<open>
  The schema is built from the combinators of the validation library (zod 3). Each combinator
  is modelled as the function from the path of a value and the value to the list of issues
  the library reports for it, in the library's order; an empty list accepts the value. An
  issue carries the path of the field, the library's issue code and the message the schema
  gave for the check (\<open>None\<close> where the schema gives none and the library's default text
  is used).
\<close>

datatype seg = Key string | Idx nat

datatype issue_code = invalid_type | invalid_string | invalid_enum_value | too_small | too_big

record issue =
  path :: "seg list"
  code :: issue_code
  message :: "string option"

type_synonym finding = "issue_code \<times> string option"

definition issues_at :: "seg list \<Rightarrow> finding list \<Rightarrow> issue list" where
  "issues_at p fs = map (\<lambda>(c, m). \<lparr> path = p, code = c, message = m \<rparr>) fs"

definition type_issue :: "seg list \<Rightarrow> issue list" where
  "type_issue p = [\<lparr> path = p, code = invalid_type, message = None \<rparr>]"

subsection \<open>Strings\<close>

text \<open>
  The library's pattern for \<open>.email()\<close>, matched without regard to case:
  \<^verbatim>\<open>^(?!\.)(?!.*\.\.)([A-Z0-9_'+\-\.]*)[A-Z0-9_+-]@([A-Z0-9][A-Z0-9\-]*\.)+[A-Z]{2,}$\<close>
  No character class of the pattern contains \<open>@\<close> and none of the domain's contains a
  dot, so a match splits the text at its only \<open>@\<close> and the domain at its dots. A text is
  a list of characters; a character outside ASCII is in no class.
\<close>

definition is_alpha :: "char \<Rightarrow> bool" where
  "is_alpha c = (c \<in> set ''abcdefghijklmnopqrstuvwxyzABCDEFGHIJKLMNOPQRSTUVWXYZ'')"

definition is_alnum :: "char \<Rightarrow> bool" where
  "is_alnum c = (is_alpha c \<or> c \<in> set ''0123456789'')"

definition local_char :: "char \<Rightarrow> bool" where
  "local_char c = (is_alnum c \<or> c \<in> set ''_+-.'' \<or> c = CHR 0x27)"

definition local_last :: "char \<Rightarrow> bool" where
  "local_last c = (is_alnum c \<or> c \<in> set ''_+-'')"

fun split_dots :: "string \<Rightarrow> string list" where
  "split_dots [] = [[]]"
| "split_dots (c # cs) =
     (if c = CHR ''.'' then [] # split_dots cs
      else (case split_dots cs of [] \<Rightarrow> [[c]] | p # ps \<Rightarrow> (c # p) # ps))"

fun has_dotdot :: "string \<Rightarrow> bool" where
  "has_dotdot (a # b # cs) = ((a = CHR ''.'' \<and> b = CHR ''.'') \<or> has_dotdot (b # cs))"
| "has_dotdot cs = False"

definition label_ok :: "string \<Rightarrow> bool" where
  "label_ok l =
     (case l of [] \<Rightarrow> False
      | c # cs \<Rightarrow> is_alnum c \<and> list_all (\<lambda>d. is_alnum d \<or> d = CHR ''-'') cs)"

definition tld_ok :: "string \<Rightarrow> bool" where
  "tld_ok t = (2 \<le> length t \<and> list_all is_alpha t)"

definition domain_ok :: "string \<Rightarrow> bool" where
  "domain_ok d =
     (let ps = split_dots d
      in 2 \<le> length ps \<and> list_all label_ok (butlast ps) \<and> tld_ok (last ps))"

definition emailRegex :: "string \<Rightarrow> bool" where
  "emailRegex s =
     (case dropWhile (\<lambda>c. c \<noteq> CHR ''@'') s of
        [] \<Rightarrow> False
      | _ # domain \<Rightarrow>
          (case takeWhile (\<lambda>c. c \<noteq> CHR ''@'') s of
             [] \<Rightarrow> False
           | c # cs \<Rightarrow>
               c \<noteq> CHR ''.'' \<and> \<not> has_dotdot s \<and> list_all local_char (c # cs) \<and>
               local_last (last (c # cs)) \<and> domain_ok domain))"

text \<open>The checks of a string schema: \<open>.min(n, msg)\<close>, \<open>.length(n, msg)\<close>, \<open>.email()\<close>.\<close>

definition s_min :: "nat \<Rightarrow> string \<Rightarrow> string \<Rightarrow> finding list" where
  "s_min n msg s = (if length s < n then [(too_small, Some msg)] else [])"

definition s_length :: "nat \<Rightarrow> string \<Rightarrow> string \<Rightarrow> finding list" where
  "s_length n msg s =
     (if n < length s then [(too_big, Some msg)]
      else if length s < n then [(too_small, Some msg)] else [])"

definition s_email :: "string \<Rightarrow> finding list" where
  "s_email s = (if emailRegex s then [] else [(invalid_string, None)])"

text \<open>
  \<open>z.string()\<close> with its checks: a value that is not a string is a type issue and no
  check runs; on a string every check runs and the findings are collected.
\<close>

definition z_string :: "(string \<Rightarrow> finding list) list \<Rightarrow> seg list \<Rightarrow> string option \<Rightarrow> issue list" where
  "z_string checks p v =
     (case v of None \<Rightarrow> type_issue p
      | Some s \<Rightarrow> issues_at p (concat (map (\<lambda>chk. chk s) checks)))"

text \<open>\<open>.optional()\<close>: \<open>undefined\<close> is accepted, any other value goes to the inner schema.\<close>

definition z_optional ::
  "(seg list \<Rightarrow> 'a option \<Rightarrow> issue list) \<Rightarrow> seg list \<Rightarrow> 'a option \<Rightarrow> issue list" where
  "z_optional inner p v = (case v of None \<Rightarrow> [] | Some x \<Rightarrow> inner p (Some x))"

text \<open>\<open>.default(d)\<close>: \<open>undefined\<close> is replaced by \<open>d\<close> before the inner schema runs.\<close>

definition with_default :: "'a \<Rightarrow> 'a option \<Rightarrow> 'a option" where
  "with_default d v = (case v of None \<Rightarrow> Some d | Some x \<Rightarrow> Some x)"

definition z_default ::
  "'a \<Rightarrow> (seg list \<Rightarrow> 'a option \<Rightarrow> issue list) \<Rightarrow> seg list \<Rightarrow> 'a option \<Rightarrow> issue list" where
  "z_default d inner p v = inner p (with_default d v)"

text \<open>\<open>z.enum([...])\<close>: a string of the list.\<close>

definition z_enum :: "string list \<Rightarrow> seg list \<Rightarrow> string option \<Rightarrow> issue list" where
  "z_enum values p v =
     (case v of None \<Rightarrow> type_issue p
      | Some s \<Rightarrow> if s \<in> set values then []
                  else [\<lparr> path = p, code = invalid_enum_value, message = None \<rparr>])"

subsection \<open>Numbers\<close>

text \<open>Comparison of a number that is not NaN with a finite bound of the schema.\<close>

fun less_than :: "number \<Rightarrow> rat \<Rightarrow> bool" where
  "less_than (Fin r) c = (r < c)"
| "less_than NInf c = True"
| "less_than PInf c = False"
| "less_than NaN c = False"

fun greater_than :: "number \<Rightarrow> rat \<Rightarrow> bool" where
  "greater_than (Fin r) c = (c < r)"
| "greater_than PInf c = True"
| "greater_than NInf c = False"
| "greater_than NaN c = False"

text \<open>\<open>.min(c, msg)\<close> and \<open>.max(c, msg)\<close>: both bounds are inclusive.\<close>

definition n_min :: "rat \<Rightarrow> string option \<Rightarrow> number \<Rightarrow> finding list" where
  "n_min c msg x = (if less_than x c then [(too_small, msg)] else [])"

definition n_max :: "rat \<Rightarrow> string option \<Rightarrow> number \<Rightarrow> finding list" where
  "n_max c msg x = (if greater_than x c then [(too_big, msg)] else [])"

text \<open>
  \<open>z.number()\<close> with its checks: \<open>undefined\<close>, \<open>null\<close> and NaN are type issues; the
  infinities are numbers.
\<close>

definition z_number :: "(number \<Rightarrow> finding list) list \<Rightarrow> seg list \<Rightarrow> jsval \<Rightarrow> issue list" where
  "z_number checks p v =
     (case v of
        Num x \<Rightarrow> if x = NaN then type_issue p else issues_at p (concat (map (\<lambda>chk. chk x) checks))
      | _ \<Rightarrow> type_issue p)"

subsection \<open>Arrays and the two objects\<close>

text \<open>The elements of an array, each under the path extended by its index.\<close>

fun z_elements :: "(seg list \<Rightarrow> 'a \<Rightarrow> issue list) \<Rightarrow> seg list \<Rightarrow> nat \<Rightarrow> 'a list \<Rightarrow> issue list" where
  "z_elements element p k [] = []"
| "z_elements element p k (x # xs) = element (p @ [Idx k]) x @ z_elements element p (Suc k) xs"

text \<open>\<open>z.array(element).min(n, msg)\<close>: the length check first, then every element.\<close>

definition z_array_min ::
  "(seg list \<Rightarrow> 'a \<Rightarrow> issue list) \<Rightarrow> nat \<Rightarrow> string \<Rightarrow> seg list \<Rightarrow> 'a list \<Rightarrow> issue list" where
  "z_array_min element n msg p xs =
     (if length xs < n then [\<lparr> path = p, code = too_small, message = Some msg \<rparr>] else [])
     @ z_elements element p 0 xs"

text \<open>The object schema of one element of \<open>lineItems\<close> (lines 56 to 63 of the component).\<close>

definition lineItemSchema :: "seg list \<Rightarrow> LineItem \<Rightarrow> issue list" where
  "lineItemSchema p item =
     z_string [] (p @ [Key ''id'']) (id' item)
     @ z_string [s_min 1 ''Description is required''] (p @ [Key ''description'']) (description item)
     @ z_number [n_min (1 / 100) (Some ''Quantity must be greater than 0'')]
         (p @ [Key ''quantity'']) (quantity item)
     @ z_number [n_min 0 (Some ''Unit price must be positive'')]
         (p @ [Key ''unitPrice'']) (unitPrice item)
     @ z_number [n_min 0 None, n_max 100 (Some ''VAT rate must be between 0 and 100'')]
         (p @ [Key ''vatRate'']) (vatRate item)
     @ z_optional (z_enum [''N1'', ''N2'', ''N3'', ''N4'', ''N5'', ''N6'', ''N7''])
         (p @ [Key ''vatNature'']) (vatNature item)"

record InvoiceRecord =
  progressivoInvio :: "string option"
  codiceDestinatario :: "string option"
  pecDestinatario :: "string option"
  supplierCountry :: "string option"
  supplierVatNumber :: "string option"
  supplierFiscalCode :: "string option"
  supplierCompanyName :: "string option"
  supplierFirstName :: "string option"
  supplierLastName :: "string option"
  supplierRegime :: "string option"
  supplierAddress :: "string option"
  supplierCivicNumber :: "string option"
  supplierPostalCode :: "string option"
  supplierCity :: "string option"
  supplierProvince :: "string option"
  supplierCountryCode :: "string option"
  customerFiscalCode :: "string option"
  customerCompanyName :: "string option"
  customerFirstName :: "string option"
  customerLastName :: "string option"
  customerAddress :: "string option"
  customerCivicNumber :: "string option"
  customerPostalCode :: "string option"
  customerCity :: "string option"
  customerProvince :: "string option"
  customerCountryCode :: "string option"
  documentType :: "string option"
  currency :: "string option"
  documentDate :: "string option"
  documentNumber :: "string option"
  lineItems :: "LineItem list"

text \<open>The transmission, supplier, customer and document rules (lines 18 to 53).\<close>

definition transmissionRules :: "InvoiceRecord \<Rightarrow> issue list" where
  "transmissionRules d =
     z_string [s_min 1 ''Progressive number is required''] [Key ''progressivoInvio''] (progressivoInvio d)
     @ z_optional (z_string []) [Key ''codiceDestinatario''] (codiceDestinatario d)
     @ z_optional (z_string [s_email]) [Key ''pecDestinatario''] (pecDestinatario d)"

definition supplierRules :: "InvoiceRecord \<Rightarrow> issue list" where
  "supplierRules d =
     z_string [s_length 2 ''Country code must be 2 characters''] [Key ''supplierCountry''] (supplierCountry d)
     @ z_string [s_min 11 ''VAT number must be at least 11 characters''] [Key ''supplierVatNumber'']
         (supplierVatNumber d)
     @ z_optional (z_string []) [Key ''supplierFiscalCode''] (supplierFiscalCode d)
     @ z_optional (z_string []) [Key ''supplierCompanyName''] (supplierCompanyName d)
     @ z_optional (z_string []) [Key ''supplierFirstName''] (supplierFirstName d)
     @ z_optional (z_string []) [Key ''supplierLastName''] (supplierLastName d)
     @ z_enum [''RF01'', ''RF02'', ''RF04'', ''RF05'', ''RF06'', ''RF07'', ''RF08'', ''RF09'', ''RF10'',
               ''RF11'', ''RF12'', ''RF13'', ''RF14'', ''RF15'', ''RF16'', ''RF17'', ''RF18'', ''RF19'']
         [Key ''supplierRegime''] (supplierRegime d)
     @ z_string [s_min 1 ''Address is required''] [Key ''supplierAddress''] (supplierAddress d)
     @ z_optional (z_string []) [Key ''supplierCivicNumber''] (supplierCivicNumber d)
     @ z_string [s_min 5 ''Postal code is required''] [Key ''supplierPostalCode''] (supplierPostalCode d)
     @ z_string [s_min 1 ''City is required''] [Key ''supplierCity''] (supplierCity d)
     @ z_optional (z_string []) [Key ''supplierProvince''] (supplierProvince d)
     @ z_string [s_length 2 ''Country code must be 2 characters''] [Key ''supplierCountryCode'']
         (supplierCountryCode d)"

definition customerRules :: "InvoiceRecord \<Rightarrow> issue list" where
  "customerRules d =
     z_optional (z_string []) [Key ''customerFiscalCode''] (customerFiscalCode d)
     @ z_optional (z_string []) [Key ''customerCompanyName''] (customerCompanyName d)
     @ z_optional (z_string []) [Key ''customerFirstName''] (customerFirstName d)
     @ z_optional (z_string []) [Key ''customerLastName''] (customerLastName d)
     @ z_string [s_min 1 ''Customer address is required''] [Key ''customerAddress''] (customerAddress d)
     @ z_optional (z_string []) [Key ''customerCivicNumber''] (customerCivicNumber d)
     @ z_string [s_min 5 ''Postal code is required''] [Key ''customerPostalCode''] (customerPostalCode d)
     @ z_string [s_min 1 ''City is required''] [Key ''customerCity''] (customerCity d)
     @ z_optional (z_string []) [Key ''customerProvince''] (customerProvince d)
     @ z_string [s_length 2 ''Country code must be 2 characters''] [Key ''customerCountryCode'']
         (customerCountryCode d)"

definition documentRules :: "InvoiceRecord \<Rightarrow> issue list" where
  "documentRules d =
     z_enum [''TD07'', ''TD08'', ''TD09''] [Key ''documentType''] (documentType d)
     @ z_default ''EUR'' (z_string []) [Key ''currency''] (currency d)
     @ z_string [s_min 1 ''Document date is required''] [Key ''documentDate''] (documentDate d)
     @ z_string [s_min 1 ''Document number is required''] [Key ''documentNumber''] (documentNumber d)"

definition lineItemsRule :: "InvoiceRecord \<Rightarrow> issue list" where
  "lineItemsRule d =
     z_array_min lineItemSchema 1 ''At least one line item is required'' [Key ''lineItems'']
       (lineItems d)"

text \<open>The issues of \<open>invoiceSchema\<close> for a candidate record, in the order of its keys.\<close>

definition invoiceSchema :: "InvoiceRecord \<Rightarrow> issue list" where
  "invoiceSchema d =
     transmissionRules d @ supplierRules d @ customerRules d @ documentRules d @ lineItemsRule d"

text \<open>
  The resolver's parse: the issues when there are any, otherwise the accepted record, in
  which a missing currency has its default.
\<close>

definition safeParse :: "InvoiceRecord \<Rightarrow> issue list + InvoiceRecord" where
  "safeParse d =
     (case invoiceSchema d of
        [] \<Rightarrow> Inr (d \<lparr> currency := with_default ''EUR'' (currency d) \<rparr>)
      | e # es \<Rightarrow> Inl (e # es))"

text \<open>The issues reported for one field.\<close>

definition errors_at :: "seg list \<Rightarrow> issue list \<Rightarrow> issue list" where
  "errors_at p es = filter (\<lambda>e. path e = p) es"

text \<open>
  The \<open>defaultValues\<close> of the form (lines 93 to 111); \<open>today\<close> is the date string of the
  day the form is created and \<open>uuid\<close> the generated id of its first item.
\<close>

definition defaultValues :: "string \<Rightarrow> string \<Rightarrow> InvoiceRecord" where
  "defaultValues today uuid =
     \<lparr> progressivoInvio = Some '''', codiceDestinatario = None, pecDestinatario = None,
       supplierCountry = Some ''IT'', supplierVatNumber = None, supplierFiscalCode = None,
       supplierCompanyName = None, supplierFirstName = None, supplierLastName = None,
       supplierRegime = Some ''RF01'', supplierAddress = None, supplierCivicNumber = None,
       supplierPostalCode = None, supplierCity = None, supplierProvince = None,
       supplierCountryCode = Some ''IT'',
       customerFiscalCode = None, customerCompanyName = None, customerFirstName = None,
       customerLastName = None, customerAddress = None, customerCivicNumber = None,
       customerPostalCode = None, customerCity = None, customerProvince = None,
       customerCountryCode = Some ''IT'',
       documentType = Some ''TD07'', currency = Some ''EUR'', documentDate = Some today,
       documentNumber = None, lineItems = defaultLineItems uuid \<rparr>"

text \<open>
  A record as a user completes the form: the defaults with every required field filled
  and one item of two units at 100 with 22 percent VAT.
\<close>

definition consulenza :: LineItem where
  "consulenza =
     (newLineItem ''0b9e6f0a-0000-4000-8000-000000000001'')
       \<lparr> description := Some ''Consulenza'', quantity := Num (Fin 2),
         unitPrice := Num (Fin 100) \<rparr>"

definition filledForm :: InvoiceRecord where
  "filledForm =
     (defaultValues ''2024-01-15'' ''0b9e6f0a-0000-4000-8000-000000000001'')
       \<lparr> progressivoInvio := Some ''00001'',
         supplierVatNumber := Some ''12345678901'',
         supplierAddress := Some ''Via Roma'',
         supplierPostalCode := Some ''20100'',
         supplierCity := Some ''Milano'',
         customerAddress := Some ''Via Garibaldi'',
         customerPostalCode := Some ''00100'',
         customerCity := Some ''Roma'',
         documentNumber := Some ''2024/001'',
         lineItems := [consulenza] \<rparr>"

subsection \<open>The rules as the specification words them\<close>

text \<open>
  \<open>at_least v c\<close>: the field is a number and \<open>v \<ge> c\<close>; \<open>above v c\<close>: the field is a
  number and \<open>v > c\<close>. A missing field, null and NaN are neither.
\<close>

fun at_least :: "jsval \<Rightarrow> rat \<Rightarrow> bool" where
  "at_least (Num (Fin r)) c = (c \<le> r)"
| "at_least (Num PInf) c = True"
| "at_least v c = False"

fun above :: "jsval \<Rightarrow> rat \<Rightarrow> bool" where
  "above (Num (Fin r)) c = (c < r)"
| "above (Num PInf) c = True"
| "above v c = False"

section \<open>Rounding: properties\<close>

text \<open>Unfolding the two searches at a numeral, for evaluation.\<close>

lemma halvings_numeral:
  "halvings (numeral k) a = (if 2 \<le> a then Suc (halvings (pred_numeral k) (a / 2)) else 0)"
  by (simp add: numeral_eq_Suc)

lemma doublings_numeral:
  "doublings (numeral k) a = (if a < 1 then Suc (doublings (pred_numeral k) (2 * a)) else 0)"
  by (simp add: numeral_eq_Suc)

lemma halvings_le: "1 \<le> a \<Longrightarrow> 2 ^ halvings n a \<le> a"
proof (induction n arbitrary: a)
  case 0
  then show ?case by simp
next
  case (Suc n)
  show ?case
  proof (cases "2 \<le> a")
    case True
    then have "2 ^ halvings n (a / 2) \<le> a / 2"
      by (intro Suc.IH) simp
    with True show ?thesis by simp
  next
    case False
    with Suc.prems show ?thesis by simp
  qed
qed

lemma doublings_ge: "0 \<le> a \<Longrightarrow> 1 \<le> a * 2 ^ doublings n a \<or> doublings n a = n"
proof (induction n arbitrary: a)
  case 0
  then show ?case by simp
next
  case (Suc n)
  show ?case
  proof (cases "a < 1")
    case True
    from Suc.prems have "0 \<le> 2 * a" by simp
    from Suc.IH [OF this] True show ?thesis
      by (auto simp: mult_ac)
  next
    case False
    then show ?thesis by simp
  qed
qed

lemma ulp_pos: "0 < ulp a"
  by (simp add: ulp_def)

lemma half_ulp_le: "0 \<le> a \<Longrightarrow> ulp a / 2 \<le> u64 * a + eta64"
proof (cases "1 \<le> a")
  case True
  have "ulp a / 2 = 2 ^ halvings 1024 a / 2 ^ 53"
    using True by (simp add: ulp_def)
  also have "\<dots> \<le> a / 2 ^ 53"
    using halvings_le [OF True, of 1024] by (simp add: divide_right_mono)
  also have "\<dots> \<le> u64 * a + eta64"
    by (simp add: u64_def eta64_def)
  finally show ?thesis .
next
  case False
  assume a0: "0 \<le> a"
  let ?k = "doublings 1022 a"
  have U: "ulp a / 2 = 1 / 2 ^ (?k + 53)"
    using False by (simp add: ulp_def power_add)
  from doublings_ge [OF a0, of 1022] show ?thesis
  proof
    assume "1 \<le> a * 2 ^ ?k"
    then have "1 / 2 ^ ?k \<le> a"
      by (simp add: field_simps)
    then have "1 / 2 ^ ?k / 2 ^ 53 \<le> a / 2 ^ 53"
      by (rule divide_right_mono) simp
    then have "ulp a / 2 \<le> u64 * a"
      by (simp add: U u64_def power_add)
    then show ?thesis by (simp add: eta64_def add_increasing2)
  next
    assume "?k = 1022"
    then have "ulp a / 2 = eta64"
      by (simp add: U eta64_def)
    then show ?thesis using a0 by (simp add: u64_def)
  qed
qed

text \<open>
  The nearest integer is at most one half away.
\<close>

lemma rne_error: "\<bar>of_int (rne y) - y\<bar> \<le> 1 / 2"
proof -
  have "of_int \<lfloor>y\<rfloor> \<le> y" "y < of_int \<lfloor>y\<rfloor> + 1"
    by linarith+
  then show ?thesis
    by (auto simp: rne_def Let_def abs_le_iff)
qed

lemma round_to_ulp_error:
  assumes "0 < U"
  shows "\<bar>of_int (rne (x / U)) * U - x\<bar> \<le> U / 2"
proof -
  have "of_int (rne (x / U)) * U - x = (of_int (rne (x / U)) - x / U) * U"
    using assms by (simp add: field_simps)
  then have "\<bar>of_int (rne (x / U)) * U - x\<bar> = \<bar>of_int (rne (x / U)) - x / U\<bar> * U"
    using assms by (simp add: abs_mult)
  also have "\<dots> \<le> 1 / 2 * U"
    using rne_error [of "x / U"] assms by (intro mult_right_mono) simp_all
  finally show ?thesis by simp
qed

lemma u64_bounds: "0 < u64" "u64 \<le> 1 / 8"
  by (simp_all add: u64_def)

lemma eta64_bounds: "0 < eta64" "eta64 \<le> 1 / 8"
proof -
  show "0 < eta64" by (simp add: eta64_def)
  have "(8::rat) \<le> 2 ^ 1075"
    using power_increasing [of 3 1075 "2::rat"] by simp
  then show "eta64 \<le> 1 / 8"
    by (simp add: eta64_def field_simps)
qed

lemma top64_pos: "1 \<le> top64"
  by (simp add: top64_def)

text \<open>
  The standard error bound of one rounding: inside the range the result is finite, with a
  relative error of at most \<open>2^(-53)\<close> or, in the subnormal range, an absolute error of at
  most \<open>2^(-1075)\<close>.
\<close>

lemma round64_error:
  assumes "\<bar>x\<bar> \<le> top64"
  shows "\<exists>y. round64 x = Fin y \<and> \<bar>y - x\<bar> \<le> u64 * \<bar>x\<bar> + eta64"
proof -
  let ?U = "ulp \<bar>x\<bar>"
  let ?y = "of_int (rne (x / ?U)) * ?U"
  have err: "\<bar>?y - x\<bar> \<le> u64 * \<bar>x\<bar> + eta64"
    using round_to_ulp_error [OF ulp_pos, of x "\<bar>x\<bar>"] half_ulp_le [of "\<bar>x\<bar>"] by simp
  have "u64 * \<bar>x\<bar> \<le> 1 / 8 * top64"
    using assms u64_bounds by (intro mult_mono) simp_all
  with err assms eta64_bounds top64_pos have "\<bar>?y\<bar> < 2 * top64"
    by linarith
  then have "\<bar>?y\<bar> < 2 ^ 1024"
    by (simp add: top64_def)
  then have "round64 x = Fin ?y"
    by (simp add: round64_def Let_def abs_less_iff not_le)
  with err show ?thesis by blast
qed

section \<open>The error of a rounded sum\<close>

lemma u64_nonneg: "0 \<le> u64"
  using u64_bounds by simp

lemma eta64_nonneg: "0 \<le> eta64"
  using eta64_bounds by simp

lemma one_plus_u64: "1 \<le> 1 + u64" "0 \<le> 1 + u64"
  using u64_bounds by simp_all

lemma sum_error_nonneg:
  assumes "0 \<le> \<alpha>" "0 \<le> \<beta>" "0 \<le> w"
  shows "0 \<le> sum_error \<alpha> \<beta> n w"
  unfolding sum_error_def
  using assms u64_nonneg eta64_nonneg by (intro mult_nonneg_nonneg add_nonneg_nonneg) simp_all

lemma sum_error_step:
  assumes "0 \<le> \<alpha>" "0 \<le> \<beta>" "0 \<le> W" "0 \<le> w"
  shows "(1 + u64) * sum_error \<alpha> \<beta> n W + (1 + u64) * ((\<alpha> + u64) * (W + w) + (\<beta> + eta64))
           \<le> sum_error \<alpha> \<beta> (Suc n) (W + w)"
proof -
  define g where "g = 1 + u64"
  define Q where "Q = (\<alpha> + u64) * W + (\<beta> + eta64)"
  define Q' where "Q' = (\<alpha> + u64) * (W + w) + (\<beta> + eta64)"
  have g1: "1 \<le> g" and g0: "0 \<le> g"
    using u64_bounds by (simp_all add: g_def)
  have au: "0 \<le> \<alpha> + u64" using assms u64_bounds by simp
  have "(\<alpha> + u64) * W \<le> (\<alpha> + u64) * (W + w)"
    using au assms by (intro mult_left_mono) simp_all
  then have QQ: "Q \<le> Q'" by (simp add: Q_def Q'_def)
  have Q0: "0 \<le> Q"
    unfolding Q_def using au assms eta64_nonneg u64_nonneg by (intro add_nonneg_nonneg mult_nonneg_nonneg) simp_all
  with QQ have Q'0: "0 \<le> Q'" by simp
  have G0: "0 \<le> of_nat n * g ^ Suc n"
    using g0 by (intro mult_nonneg_nonneg) simp_all
  have "g * (of_nat n * g ^ n * Q) = of_nat n * g ^ Suc n * Q"
    by simp
  also have "\<dots> \<le> of_nat n * g ^ Suc n * Q'"
    using QQ G0 by (rule mult_left_mono)
  finally have A: "g * (of_nat n * g ^ n * Q) \<le> of_nat n * g ^ Suc n * Q'" .
  have "g \<le> g ^ Suc n"
    using g1 by (rule self_le_power) simp
  then have B: "g * Q' \<le> g ^ Suc n * Q'"
    using Q'0 by (rule mult_right_mono)
  have "of_nat n * g ^ Suc n * Q' + g ^ Suc n * Q' = of_nat (Suc n) * g ^ Suc n * Q'"
    by (simp add: algebra_simps)
  with A B have "g * (of_nat n * g ^ n * Q) + g * Q' \<le> of_nat (Suc n) * g ^ Suc n * Q'"
    by linarith
  then show ?thesis
    by (simp only: sum_error_def g_def Q_def Q'_def)
qed

lemma sum_error_mono:
  assumes "0 \<le> \<alpha>" "0 \<le> \<beta>" "0 \<le> W" "0 \<le> w"
  shows "sum_error \<alpha> \<beta> n W \<le> sum_error \<alpha> \<beta> (Suc n) (W + w)"
proof -
  have E0: "0 \<le> sum_error \<alpha> \<beta> n W"
    using assms by (intro sum_error_nonneg) simp_all
  have "0 \<le> (\<alpha> + u64) * (W + w) + (\<beta> + eta64)"
    using assms u64_nonneg eta64_nonneg by (intro add_nonneg_nonneg mult_nonneg_nonneg) simp_all
  then have "0 \<le> (1 + u64) * ((\<alpha> + u64) * (W + w) + (\<beta> + eta64))"
    using one_plus_u64 by (intro mult_nonneg_nonneg) simp_all
  moreover have "sum_error \<alpha> \<beta> n W \<le> (1 + u64) * sum_error \<alpha> \<beta> n W"
    using E0 u64_bounds by (simp add: algebra_simps)
  ultimately show ?thesis
    using sum_error_step [OF assms, of n] by linarith
qed

text \<open>One rounded addition of the running sum and a computed term.\<close>

lemma fsum_step:
  assumes "0 \<le> \<alpha>" "0 \<le> \<beta>" "0 \<le> W" "0 \<le> w"
    and acc: "\<bar>s - S\<bar> \<le> sum_error \<alpha> \<beta> n W" "\<bar>S\<bar> \<le> W"
    and trm: "\<bar>y - x\<bar> \<le> \<alpha> * w + \<beta>" "\<bar>x\<bar> \<le> w"
    and guard: "(1 + \<alpha>) * (W + w) + \<beta> + sum_error \<alpha> \<beta> (Suc n) (W + w) \<le> top64"
  shows "\<exists>s'. round64 (s + y) = Fin s' \<and> \<bar>s' - (S + x)\<bar> \<le> sum_error \<alpha> \<beta> (Suc n) (W + w)"
proof -
  let ?E = "sum_error \<alpha> \<beta> n W"
  let ?E' = "sum_error \<alpha> \<beta> (Suc n) (W + w)"
  have EE: "?E \<le> ?E'" using assms(1-4) by (rule sum_error_mono)
  have aw: "\<alpha> * w \<le> \<alpha> * (W + w)" "0 \<le> \<alpha> * w"
    using assms(1-4) by (simp_all add: mult_left_mono)
  have dist: "(1 + \<alpha>) * (W + w) = (W + w) + \<alpha> * (W + w)"
    by (simp add: algebra_simps)
  have z: "\<bar>(s + y) - (S + x)\<bar> \<le> ?E + \<alpha> * w + \<beta>"
    using acc(1) trm(1) by linarith
  have zabs: "\<bar>s + y\<bar> \<le> (W + w) + ?E + \<alpha> * w + \<beta>"
    using z acc(2) trm(2) by linarith
  then have "\<bar>s + y\<bar> \<le> top64"
    using guard EE aw dist by linarith
  from round64_error [OF this] obtain s' where
    s': "round64 (s + y) = Fin s'" and err: "\<bar>s' - (s + y)\<bar> \<le> u64 * \<bar>s + y\<bar> + eta64"
    by blast
  have "u64 * \<bar>s + y\<bar> \<le> u64 * ((W + w) + ?E + \<alpha> * w + \<beta>)"
    using zabs u64_nonneg by (rule mult_left_mono)
  with err z have "\<bar>s' - (S + x)\<bar> \<le>
      u64 * ((W + w) + ?E + \<alpha> * w + \<beta>) + eta64 + ?E + \<alpha> * w + \<beta>"
    by linarith
  also have "\<dots> = (1 + u64) * ?E + ((1 + u64) * (\<alpha> * w) + u64 * (W + w) + (1 + u64) * \<beta> + eta64)"
    by (simp add: algebra_simps)
  also have "\<dots> \<le> (1 + u64) * ?E + (1 + u64) * ((\<alpha> + u64) * (W + w) + (\<beta> + eta64))"
  proof -
    have "(1 + u64) * (\<alpha> * w) \<le> (1 + u64) * (\<alpha> * (W + w))"
      using aw(1) one_plus_u64(2) by (rule mult_left_mono)
    moreover have "u64 * (W + w) \<le> (1 + u64) * (u64 * (W + w))"
    proof -
      have "0 \<le> u64 * (u64 * (W + w))"
        using assms(3,4) u64_nonneg by (intro mult_nonneg_nonneg) simp_all
      then show ?thesis by (simp add: algebra_simps)
    qed
    moreover have "eta64 \<le> (1 + u64) * eta64"
    proof -
      have "0 \<le> u64 * eta64" using u64_bounds eta64_bounds by simp
      then show ?thesis by (simp add: algebra_simps)
    qed
    moreover have "(1 + u64) * ((\<alpha> + u64) * (W + w) + (\<beta> + eta64)) =
        (1 + u64) * (\<alpha> * (W + w)) + (1 + u64) * (u64 * (W + w)) + (1 + u64) * \<beta> + (1 + u64) * eta64"
      by (simp add: algebra_simps)
    ultimately show ?thesis by linarith
  qed
  also have "\<dots> \<le> ?E'"
    using assms(1-4) by (rule sum_error_step)
  finally show ?thesis using s' by blast
qed

text \<open>
  A running sum of \<open>n\<close> computed terms, each added with one rounding: as long as the
  error bound keeps the magnitudes inside the range, the sum is finite and within
  \<open>sum_error\<close> of the exact sum.
\<close>

lemma fsum_error:
  fixes X Y W :: "'a \<Rightarrow> rat" and T :: "'a \<Rightarrow> number"
  assumes ab: "0 \<le> \<alpha>" "0 \<le> \<beta>"
  shows "(\<And>i. i \<in> set xs \<Longrightarrow> T i = Fin (Y i) \<and> \<bar>Y i - X i\<bar> \<le> \<alpha> * W i + \<beta> \<and> \<bar>X i\<bar> \<le> W i) \<Longrightarrow>
     (1 + \<alpha>) * sum_list (map W xs) + \<beta> + sum_error \<alpha> \<beta> (length xs) (sum_list (map W xs)) \<le> top64 \<Longrightarrow>
     \<exists>s. foldl (jadd round64) (Fin 0) (map T xs) = Fin s \<and>
         \<bar>s - sum_list (map X xs)\<bar> \<le> sum_error \<alpha> \<beta> (length xs) (sum_list (map W xs)) \<and>
         \<bar>sum_list (map X xs)\<bar> \<le> sum_list (map W xs)"
proof (induction xs rule: rev_induct)
  case Nil
  then show ?case by (simp add: sum_error_def)
next
  case (snoc x xs)
  let ?W = "sum_list (map W xs)" and ?S = "sum_list (map X xs)"
  have x: "T x = Fin (Y x)" "\<bar>Y x - X x\<bar> \<le> \<alpha> * W x + \<beta>" "\<bar>X x\<bar> \<le> W x"
    using snoc.prems(1) [of x] by simp_all
  then have w0: "0 \<le> W x" by linarith
  have W0: "0 \<le> ?W"
    using snoc.prems(1) by (intro sum_list_nonneg) fastforce
  have guard: "(1 + \<alpha>) * (?W + W x) + \<beta> + sum_error \<alpha> \<beta> (Suc (length xs)) (?W + W x) \<le> top64"
    using snoc.prems(2) by simp
  have "(1 + \<alpha>) * ?W \<le> (1 + \<alpha>) * (?W + W x)"
    using ab w0 by (intro mult_left_mono) simp_all
  moreover have "sum_error \<alpha> \<beta> (length xs) ?W \<le> sum_error \<alpha> \<beta> (Suc (length xs)) (?W + W x)"
    using ab W0 w0 by (rule sum_error_mono)
  ultimately have "(1 + \<alpha>) * ?W + \<beta> + sum_error \<alpha> \<beta> (length xs) ?W \<le> top64"
    using guard by linarith
  with snoc.IH snoc.prems(1) obtain s where
    s: "foldl (jadd round64) (Fin 0) (map T xs) = Fin s"
      "\<bar>s - ?S\<bar> \<le> sum_error \<alpha> \<beta> (length xs) ?W" "\<bar>?S\<bar> \<le> ?W"
    by auto
  from fsum_step [OF ab W0 w0 s(2,3) x(2,3) guard] obtain s' where
    s': "round64 (s + Y x) = Fin s'" "\<bar>s' - (?S + X x)\<bar> \<le> sum_error \<alpha> \<beta> (Suc (length xs)) (?W + W x)"
    by blast
  have "foldl (jadd round64) (Fin 0) (map T (xs @ [x])) = Fin s'"
    by (simp add: s(1) x(1) s'(1))
  moreover have "\<bar>sum_list (map X (xs @ [x]))\<bar> \<le> sum_list (map W (xs @ [x]))"
    using s(3) x(3) by simp
  ultimately show ?case using s'(2) by simp
qed

lemma one_plus_u64_power:
  "of_nat n * u64 \<le> 1 / 2 \<Longrightarrow> (1 + u64) ^ n \<le> 1 + 2 * of_nat n * u64"
proof (induction n)
  case 0
  then show ?case by simp
next
  case (Suc n)
  have nu: "of_nat n * u64 \<le> 1 / 2"
    using Suc.prems u64_nonneg by (simp add: algebra_simps)
  have "(1 + u64) ^ Suc n = (1 + u64) ^ n * (1 + u64)" by simp
  also have "\<dots> \<le> (1 + 2 * of_nat n * u64) * (1 + u64)"
    using Suc.IH [OF nu] one_plus_u64 by (intro mult_right_mono) simp_all
  also have "\<dots> = 1 + 2 * of_nat n * u64 + u64 + (2 * (of_nat n * u64)) * u64"
    by (simp add: algebra_simps)
  also have "\<dots> \<le> 1 + 2 * of_nat n * u64 + u64 + 1 * u64"
  proof -
    have "(2 * (of_nat n * u64)) * u64 \<le> 1 * u64"
      using nu u64_nonneg by (intro mult_right_mono) simp_all
    then show ?thesis by linarith
  qed
  also have "\<dots> = 1 + 2 * of_nat (Suc n) * u64"
    by (simp add: algebra_simps)
  finally show ?case .
qed

lemma one_plus_u64_power_le_2:
  assumes "n \<le> items_bound"
  shows "(1 + u64) ^ n \<le> 2"
proof -
  have "(of_nat n :: rat) \<le> of_nat items_bound"
    using assms by simp
  then have "of_nat n * u64 \<le> of_nat items_bound * u64"
    using u64_nonneg by (rule mult_right_mono)
  also have "\<dots> \<le> 1 / 2"
    by (simp add: items_bound_def u64_def)
  finally have nu: "of_nat n * u64 \<le> 1 / 2" .
  from one_plus_u64_power [OF nu] nu show ?thesis by linarith
qed

lemma sum_error_le:
  assumes "n \<le> items_bound" "0 \<le> \<alpha>" "0 \<le> \<beta>" "0 \<le> w"
  shows "sum_error \<alpha> \<beta> n w \<le> of_nat n * (2 * ((\<alpha> + u64) * w + (\<beta> + eta64)))"
proof -
  have Q0: "0 \<le> (\<alpha> + u64) * w + (\<beta> + eta64)"
    using assms u64_nonneg eta64_nonneg by (intro add_nonneg_nonneg mult_nonneg_nonneg) simp_all
  have "sum_error \<alpha> \<beta> n w = of_nat n * ((1 + u64) ^ n * ((\<alpha> + u64) * w + (\<beta> + eta64)))"
    by (simp add: sum_error_def)
  also have "\<dots> \<le> of_nat n * (2 * ((\<alpha> + u64) * w + (\<beta> + eta64)))"
    using one_plus_u64_power_le_2 [OF assms(1)] Q0
    by (intro mult_left_mono mult_right_mono) simp_all
  finally show ?thesis .
qed

section \<open>The error of the terms of an item\<close>

lemma or0_num_of: "defined_finite v \<Longrightarrow> or0 v = Fin (num_of v)"
  by (cases v rule: defined_finite.cases) auto

text \<open>
  One rounded product of two computed operands.
\<close>

lemma prod_error:
  fixes l L r R u e :: rat
  assumes "\<bar>l - L\<bar> \<le> u * \<bar>L\<bar> + e" "\<bar>r - R\<bar> \<le> u * \<bar>R\<bar> + e"
    and u: "0 \<le> u" "u \<le> 1 / 8" and e: "0 \<le> e" "e \<le> 1 / 8"
  shows "\<bar>l * r - L * R\<bar> \<le> 3 * u * \<bar>L * R\<bar> + 2 * e * (\<bar>L\<bar> + \<bar>R\<bar>) + e"
proof -
  define a b where "a = \<bar>L\<bar>" and "b = \<bar>R\<bar>"
  have a0: "0 \<le> a" and b0: "0 \<le> b" by (simp_all add: a_def b_def)
  have dl: "\<bar>l - L\<bar> \<le> u * a + e" and dr: "\<bar>r - R\<bar> \<le> u * b + e"
    using assms(1,2) by (simp_all add: a_def b_def)
  have rb: "\<bar>r\<bar> \<le> b + (u * b + e)"
    using dr unfolding b_def by linarith
  have ua0: "0 \<le> u * a + e" using u e a0 by simp
  have "l * r - L * R = (l - L) * r + L * (r - R)"
    by (simp add: algebra_simps)
  then have "\<bar>l * r - L * R\<bar> \<le> \<bar>l - L\<bar> * \<bar>r\<bar> + \<bar>L\<bar> * \<bar>r - R\<bar>"
    by (metis abs_mult abs_triangle_ineq)
  also have "\<dots> \<le> (u * a + e) * (b + (u * b + e)) + a * (u * b + e)"
  proof -
    have "\<bar>l - L\<bar> * \<bar>r\<bar> \<le> (u * a + e) * (b + (u * b + e))"
      using dl rb ua0 by (intro mult_mono) simp_all
    moreover have "\<bar>L\<bar> * \<bar>r - R\<bar> \<le> a * (u * b + e)"
      using dr a0 unfolding a_def by (intro mult_left_mono) simp_all
    ultimately show ?thesis by linarith
  qed
  also have "\<dots> = 2 * (u * (a * b)) + u * (u * (a * b)) + (e * a + u * (e * a)) +
      (e * b + u * (e * b)) + e * e"
    by (simp add: algebra_simps)
  also have "\<dots> \<le> 3 * u * (a * b) + 2 * e * (a + b) + e"
  proof -
    have ab0: "0 \<le> u * (a * b)" and ea0: "0 \<le> e * a" and eb0: "0 \<le> e * b"
      using u e a0 b0 by simp_all
    have u1: "u \<le> 1" using u by simp
    have "u * (u * (a * b)) \<le> 1 * (u * (a * b))"
      using u1 ab0 by (rule mult_right_mono)
    moreover have "u * (e * a) \<le> 1 * (e * a)"
      using u1 ea0 by (rule mult_right_mono)
    moreover have "u * (e * b) \<le> 1 * (e * b)"
      using u1 eb0 by (rule mult_right_mono)
    moreover have "e * e \<le> 1 * e"
      using e by (intro mult_right_mono) simp_all
    ultimately show ?thesis by (simp add: algebra_simps)
  qed
  finally show ?thesis by (simp add: a_def b_def abs_mult)
qed

lemma round_chain:
  fixes v z X d u e :: rat
  assumes "\<bar>v - z\<bar> \<le> u * \<bar>z\<bar> + e" "\<bar>z - X\<bar> \<le> d" "0 \<le> u"
  shows "\<bar>v - X\<bar> \<le> u * \<bar>X\<bar> + (1 + u) * d + e"
proof -
  have "\<bar>z\<bar> \<le> \<bar>X\<bar> + d" using assms(2) by linarith
  then have "u * \<bar>z\<bar> \<le> u * (\<bar>X\<bar> + d)"
    using assms(3) by (rule mult_left_mono)
  then have "u * \<bar>z\<bar> \<le> u * \<bar>X\<bar> + u * d"
    by (simp add: algebra_simps)
  moreover have "(1 + u) * d = d + u * d" by (simp add: algebra_simps)
  ultimately show ?thesis using assms(1,2) by linarith
qed

lemma field_bound_facts:
  "1 \<le> field_bound"
  "field_bound * field_bound \<le> top64"
  "2 * (field_bound * field_bound * field_bound) + 1 \<le> top64"
  "2 * (field_bound * field_bound) + 2 * (field_bound * field_bound * field_bound) + 2 \<le> top64"
  "3 * eta64 * (field_bound * field_bound + field_bound + 1) \<le> 1 / 8"
  by (simp_all add: field_bound_def top64_def eta64_def)

lemma item_bounds:
  assumes "bounded_item field_bound i"
  shows "\<bar>num_of (quantity i) * num_of (unitPrice i)\<bar> \<le> field_bound * field_bound"
    and "\<bar>num_of (vatRate i) / 100\<bar> \<le> field_bound"
    and "\<bar>num_of (quantity i) * num_of (unitPrice i) * (num_of (vatRate i) / 100)\<bar>
          \<le> field_bound * field_bound * field_bound"
proof -
  let ?q = "num_of (quantity i)" and ?p = "num_of (unitPrice i)" and ?r = "num_of (vatRate i)"
  from assms have q: "\<bar>?q\<bar> \<le> field_bound" and p: "\<bar>?p\<bar> \<le> field_bound"
    and r: "\<bar>?r\<bar> \<le> field_bound"
    by (simp_all add: bounded_item_def)
  have F0: "0 \<le> field_bound" using field_bound_facts(1) by simp
  show L: "\<bar>?q * ?p\<bar> \<le> field_bound * field_bound"
    using mult_mono [OF q p F0 abs_ge_zero] by (simp add: abs_mult)
  show R: "\<bar>?r / 100\<bar> \<le> field_bound"
    using r F0 by simp
  show "\<bar>?q * ?p * (?r / 100)\<bar> \<le> field_bound * field_bound * field_bound"
    using mult_mono [OF L R _ abs_ge_zero] F0 by (simp add: abs_mult)
qed

text \<open>
  The three terms the callback adds, for an item whose fields are bounded: the computed value
  is finite and close to the exact term.
\<close>

lemma lineTotal_term:
  assumes "finite_fields i" "bounded_item field_bound i"
  shows "lineTotal_of round64 i = Fin (value_of (lineTotal_of round64 i)) \<and>
     \<bar>value_of (lineTotal_of round64 i) - num_of (quantity i) * num_of (unitPrice i)\<bar>
       \<le> u64 * \<bar>num_of (quantity i) * num_of (unitPrice i)\<bar> + eta64"
proof -
  let ?L = "num_of (quantity i) * num_of (unitPrice i)"
  have "\<bar>?L\<bar> \<le> top64"
    using item_bounds(1) [OF assms(2)] field_bound_facts(2) by linarith
  from round64_error [OF this] obtain l where
    "round64 ?L = Fin l" "\<bar>l - ?L\<bar> \<le> u64 * \<bar>?L\<bar> + eta64"
    by blast
  moreover have "lineTotal_of round64 i = round64 ?L"
    using assms(1) by (simp add: lineTotal_of_def finite_fields_def or0_num_of)
  ultimately show ?thesis by simp
qed

lemma rate_term:
  assumes "finite_fields i" "bounded_item field_bound i"
  shows "\<exists>\<rho>. jdiv100 round64 (or0 (vatRate i)) = Fin \<rho> \<and>
     \<bar>\<rho> - num_of (vatRate i) / 100\<bar> \<le> u64 * \<bar>num_of (vatRate i) / 100\<bar> + eta64"
proof -
  let ?R = "num_of (vatRate i) / 100"
  have "field_bound \<le> field_bound * field_bound"
    using field_bound_facts(1) by (simp add: mult_le_cancel_left1)
  then have "\<bar>?R\<bar> \<le> top64"
    using item_bounds(2) [OF assms(2)] field_bound_facts(2) by linarith
  from round64_error [OF this] obtain \<rho> where
    "round64 ?R = Fin \<rho>" "\<bar>\<rho> - ?R\<bar> \<le> u64 * \<bar>?R\<bar> + eta64"
    by blast
  moreover have "jdiv100 round64 (or0 (vatRate i)) = round64 ?R"
    using assms(1) by (simp add: finite_fields_def or0_num_of)
  ultimately show ?thesis by simp
qed

lemma vatAmount_term:
  assumes "finite_fields i" "bounded_item field_bound i"
  shows "vatAmount_of round64 i = Fin (value_of (vatAmount_of round64 i)) \<and>
     \<bar>value_of (vatAmount_of round64 i) -
        num_of (quantity i) * num_of (unitPrice i) * (num_of (vatRate i) / 100)\<bar>
       \<le> 5 * u64 * \<bar>num_of (quantity i) * num_of (unitPrice i) * (num_of (vatRate i) / 100)\<bar>
          + 3 * eta64 * (field_bound * field_bound + field_bound + 1)"
proof -
  let ?L = "num_of (quantity i) * num_of (unitPrice i)"
  let ?R = "num_of (vatRate i) / 100"
  let ?F = field_bound
  define ab where "ab = \<bar>?L * ?R\<bar>"
  have ab0: "0 \<le> ab" by (simp add: ab_def)
  from lineTotal_term [OF assms] obtain l where
    l: "lineTotal_of round64 i = Fin l" "\<bar>l - ?L\<bar> \<le> u64 * \<bar>?L\<bar> + eta64"
    by blast
  from rate_term [OF assms] obtain \<rho> where
    \<rho>: "jdiv100 round64 (or0 (vatRate i)) = Fin \<rho>" "\<bar>\<rho> - ?R\<bar> \<le> u64 * \<bar>?R\<bar> + eta64"
    by blast
  have bL: "\<bar>?L\<bar> \<le> ?F * ?F" and bR: "\<bar>?R\<bar> \<le> ?F" and bLR: "ab \<le> ?F * ?F * ?F"
    using item_bounds [OF assms(2)] by (simp_all add: ab_def)
  define uab where "uab = u64 * ab"
  define eLR where "eLR = eta64 * (\<bar>?L\<bar> + \<bar>?R\<bar>)"
  define eF where "eF = eta64 * (?F * ?F + ?F)"
  define d where "d = 3 * uab + 2 * eLR + eta64"
  have pe: "\<bar>l * \<rho> - ?L * ?R\<bar> \<le> d"
    using prod_error [OF l(2) \<rho>(2) u64_nonneg u64_bounds(2) eta64_nonneg eta64_bounds(2)]
    by (simp add: d_def uab_def eLR_def ab_def algebra_simps)
  have uab0: "0 \<le> uab" and uab8: "uab \<le> ab / 8"
    using mult_right_mono [OF u64_bounds(2) ab0] u64_nonneg ab0 by (simp_all add: uab_def)
  have eLR0: "0 \<le> eLR"
    using eta64_nonneg by (simp add: eLR_def)
  have eLR_le: "eLR \<le> eF"
    unfolding eLR_def eF_def using bL bR eta64_nonneg by (intro mult_left_mono) simp_all
  have eF0: "0 \<le> eF" using eLR0 eLR_le by linarith
  have eF8: "3 * eF + 3 * eta64 \<le> 1 / 8"
    using field_bound_facts(5) by (simp add: eF_def algebra_simps)
  have d0: "0 \<le> d" using pe by linarith
  have d_le: "d \<le> 3 * uab + 2 * eF + eta64"
    unfolding d_def using eLR_le by linarith
  define F3 where "F3 = ?F * ?F * ?F"
  have F3: "ab \<le> F3" "2 * F3 + 1 \<le> top64"
    using bLR field_bound_facts(3) by (simp_all add: F3_def)
  have "\<bar>l * \<rho>\<bar> \<le> ab + d"
    using pe unfolding ab_def by linarith
  also have "\<dots> \<le> 2 * F3 + 1"
    using d_le uab8 eF0 eF8 eta64_nonneg ab0 F3(1) by linarith
  finally have "\<bar>l * \<rho>\<bar> \<le> top64"
    using F3(2) by linarith
  from round64_error [OF this] obtain v where
    v: "round64 (l * \<rho>) = Fin v" "\<bar>v - l * \<rho>\<bar> \<le> u64 * \<bar>l * \<rho>\<bar> + eta64"
    by blast
  have va: "vatAmount_of round64 i = Fin v"
    by (simp add: vatAmount_of_def l(1) \<rho>(1) v(1))
  have ud: "u64 * d \<le> d / 8"
    using mult_right_mono [OF u64_bounds(2) d0] by simp
  have "\<bar>v - ?L * ?R\<bar> \<le> u64 * ab + (1 + u64) * d + eta64"
    unfolding ab_def using round_chain [OF v(2) pe u64_nonneg] .
  also have "\<dots> = uab + (d + u64 * d) + eta64"
    by (simp add: uab_def algebra_simps)
  also have "\<dots> \<le> 5 * uab + (3 * eF + 3 * eta64)"
    using ud d_le uab0 eF0 eta64_nonneg by linarith
  also have "\<dots> = 5 * u64 * ab + 3 * eta64 * (?F * ?F + ?F + 1)"
    by (simp add: uab_def eF_def algebra_simps)
  finally show ?thesis using va by (simp add: ab_def)
qed

lemma total_term:
  assumes "finite_fields i" "bounded_item field_bound i"
  shows "jadd round64 (lineTotal_of round64 i) (vatAmount_of round64 i) =
       Fin (value_of (jadd round64 (lineTotal_of round64 i) (vatAmount_of round64 i))) \<and>
     \<bar>value_of (jadd round64 (lineTotal_of round64 i) (vatAmount_of round64 i)) -
        (num_of (quantity i) * num_of (unitPrice i) +
         num_of (quantity i) * num_of (unitPrice i) * (num_of (vatRate i) / 100))\<bar>
       \<le> 7 * u64 * (\<bar>num_of (quantity i) * num_of (unitPrice i)\<bar> +
                     \<bar>num_of (quantity i) * num_of (unitPrice i) * (num_of (vatRate i) / 100)\<bar>)
          + (6 * eta64 * (field_bound * field_bound + field_bound + 1) + 3 * eta64)"
proof -
  let ?L = "num_of (quantity i) * num_of (unitPrice i)"
  let ?R = "num_of (vatRate i) / 100"
  let ?F = field_bound
  define a where "a = \<bar>?L\<bar>"
  define ab where "ab = \<bar>?L * ?R\<bar>"
  define ua where "ua = u64 * a"
  define uab where "uab = u64 * ab"
  define bv where "bv = eta64 * (?F * ?F + ?F + 1)"
  define F2 where "F2 = ?F * ?F"
  define F3 where "F3 = ?F * ?F * ?F"
  have a0: "0 \<le> a" and ab0: "0 \<le> ab" by (simp_all add: a_def ab_def)
  have bnd: "a \<le> F2" "ab \<le> F3"
    using item_bounds(1,3) [OF assms(2)] by (simp_all add: a_def ab_def F2_def F3_def)
  have top: "2 * F2 + 2 * F3 + 2 \<le> top64"
    using field_bound_facts(4) by (simp add: F2_def F3_def)
  have bv8: "3 * bv \<le> 1 / 8" and bv0: "0 \<le> bv"
    using field_bound_facts(5) field_bound_facts(1) eta64_nonneg by (simp_all add: bv_def)
  have ua: "0 \<le> ua" "ua \<le> a / 8"
    using mult_right_mono [OF u64_bounds(2) a0] u64_nonneg a0 by (simp_all add: ua_def)
  have uab: "0 \<le> uab" "uab \<le> ab / 8"
    using mult_right_mono [OF u64_bounds(2) ab0] u64_nonneg ab0 by (simp_all add: uab_def)
  from lineTotal_term [OF assms] obtain l where
    l: "lineTotal_of round64 i = Fin l" "\<bar>l - ?L\<bar> \<le> ua + eta64"
    unfolding ua_def a_def by blast
  from vatAmount_term [OF assms] obtain v where
    v: "vatAmount_of round64 i = Fin v" "\<bar>v - ?L * ?R\<bar> \<le> 5 * uab + 3 * bv"
    unfolding uab_def ab_def bv_def by (auto simp: algebra_simps)
  define d where "d = ua + eta64 + 5 * uab + 3 * bv"
  have d0: "0 \<le> d"
    using ua(1) uab(1) bv0 eta64_nonneg by (simp add: d_def)
  have zd: "\<bar>(l + v) - (?L + ?L * ?R)\<bar> \<le> d"
    unfolding d_def using l(2) v(2) by linarith
  have X: "\<bar>?L + ?L * ?R\<bar> \<le> a + ab"
    unfolding a_def ab_def by (rule abs_triangle_ineq)
  have "\<bar>l + v\<bar> \<le> a + ab + d"
    using zd X by linarith
  also have "\<dots> \<le> 2 * F2 + 2 * F3 + 2"
    unfolding d_def using bnd ua uab bv8 eta64_bounds(2) a0 ab0 by linarith
  finally have "\<bar>l + v\<bar> \<le> top64"
    using top by linarith
  from round64_error [OF this] obtain t where
    t: "round64 (l + v) = Fin t" "\<bar>t - (l + v)\<bar> \<le> u64 * \<bar>l + v\<bar> + eta64"
    by blast
  have tv: "jadd round64 (lineTotal_of round64 i) (vatAmount_of round64 i) = Fin t"
    by (simp add: l(1) v(1) t(1))
  have uX: "u64 * \<bar>?L + ?L * ?R\<bar> \<le> ua + uab"
    using mult_left_mono [OF X u64_nonneg] by (simp add: ua_def uab_def algebra_simps)
  have ud: "u64 * d \<le> d / 8"
    using mult_right_mono [OF u64_bounds(2) d0] by simp
  have "\<bar>t - (?L + ?L * ?R)\<bar> \<le> u64 * \<bar>?L + ?L * ?R\<bar> + (1 + u64) * d + eta64"
    using round_chain [OF t(2) zd u64_nonneg] .
  also have "\<dots> = u64 * \<bar>?L + ?L * ?R\<bar> + (d + u64 * d) + eta64"
    by (simp add: algebra_simps)
  also have "\<dots> \<le> 7 * ua + 7 * uab + (6 * bv + 3 * eta64)"
    using uX ud ua(1) uab(1) bv0 eta64_nonneg d_def by linarith
  also have "\<dots> = 7 * u64 * (a + ab) + (6 * eta64 * (?F * ?F + ?F + 1) + 3 * eta64)"
    by (simp add: ua_def uab_def bv_def algebra_simps)
  finally show ?thesis
    using tv by (simp add: a_def ab_def)
qed

lemma foldl_totals_step:
  "foldl (totals_step rnd) \<lparr> subtotal = s, vatTotal = v, total = t \<rparr> items =
     \<lparr> subtotal = foldl (jadd rnd) s (map (lineTotal_of rnd) items),
       vatTotal = foldl (jadd rnd) v (map (vatAmount_of rnd) items),
       total = foldl (jadd rnd) t
         (map (\<lambda>i. jadd rnd (lineTotal_of rnd i) (vatAmount_of rnd i)) items) \<rparr>"
  by (induction items arbitrary: s v t)
     (simp_all add: totals_step_def Let_def lineTotal_of_def vatAmount_of_def)

lemma totals_in_split:
  "totals_in rnd items =
     \<lparr> subtotal = foldl (jadd rnd) (Fin 0) (map (lineTotal_of rnd) items),
       vatTotal = foldl (jadd rnd) (Fin 0) (map (vatAmount_of rnd) items),
       total = foldl (jadd rnd) (Fin 0)
         (map (\<lambda>i. jadd rnd (lineTotal_of rnd i) (vatAmount_of rnd i)) items) \<rparr>"
  by (simp add: totals_in_def foldl_totals_step)

lemma sum_list_le_length:
  fixes f :: "'a \<Rightarrow> rat"
  shows "(\<And>i. i \<in> set xs \<Longrightarrow> f i \<le> c) \<Longrightarrow> sum_list (map f xs) \<le> of_nat (length xs) * c"
  by (induction xs) (auto simp: algebra_simps intro: add_mono)

section \<open>The totals calculator: properties\<close>

lemma bound_numerals:
  "2 * (of_nat items_bound * (field_bound * field_bound + field_bound * field_bound * field_bound)) + 1 +
     of_nat items_bound *
       (4 * (of_nat items_bound * (field_bound * field_bound + field_bound * field_bound * field_bound)) + 4)
     \<le> top64"
  "2 * (6 * eta64 * (field_bound * field_bound + field_bound + 1) + 3 * eta64 + eta64) \<le> 1 / 2 ^ 900"
  "16 * u64 = 1 / 2 ^ 49"
  by (simp_all add: items_bound_def field_bound_def top64_def eta64_def u64_def)

text \<open>
  Under the bounds on the fields and on the number of items every intermediate magnitude
  stays inside the range, and the accumulated error is below the tolerance.
\<close>

lemma guard_ok:
  assumes n: "n \<le> items_bound" and \<alpha>: "0 \<le> \<alpha>" "\<alpha> \<le> 1" and \<beta>: "0 \<le> \<beta>" "\<beta> \<le> 1"
    and W: "0 \<le> W" "W \<le> of_nat n * (field_bound * field_bound + field_bound * field_bound * field_bound)"
  shows "(1 + \<alpha>) * W + \<beta> + sum_error \<alpha> \<beta> n W \<le> top64"
proof -
  define N :: rat where "N = of_nat items_bound"
  define c where "c = field_bound * field_bound + field_bound * field_bound * field_bound"
  define M where "M = N * c"
  have nN: "of_nat n \<le> N" and N0: "0 \<le> N" and n0: "(0::rat) \<le> of_nat n"
    using n by (simp_all add: N_def)
  have c0: "0 \<le> c"
    using field_bound_facts(1) by (simp add: c_def)
  have WM: "W \<le> M"
    using W(2) mult_right_mono [OF nN c0] by (simp add: M_def c_def)
  have M0: "0 \<le> M" using W(1) WM by linarith
  have au: "\<alpha> + u64 \<le> 2" "0 \<le> \<alpha> + u64"
    using \<alpha> u64_bounds by simp_all
  have be: "\<beta> + eta64 \<le> 2" "0 \<le> \<beta> + eta64"
    using \<beta> eta64_bounds by simp_all
  have auW: "(\<alpha> + u64) * W \<le> 2 * M" "0 \<le> (\<alpha> + u64) * W"
    using mult_mono [OF au(1) WM _ W(1)] au(2) W(1) by simp_all
  have aW: "(1 + \<alpha>) * W \<le> 2 * M"
    using mult_mono [of "1 + \<alpha>" 2 W M] \<alpha> WM W(1) by simp
  define inner where "inner = 2 * ((\<alpha> + u64) * W + (\<beta> + eta64))"
  have inner: "0 \<le> inner" "inner \<le> 4 * M + 4"
    using auW be by (simp_all add: inner_def)
  have "sum_error \<alpha> \<beta> n W \<le> of_nat n * inner"
    unfolding inner_def using n \<alpha>(1) \<beta>(1) W(1) by (rule sum_error_le)
  also have "\<dots> \<le> N * (4 * M + 4)"
    using nN inner N0 by (intro mult_mono) simp_all
  finally have E: "sum_error \<alpha> \<beta> n W \<le> N * (4 * M + 4)" .
  have "2 * M + 1 + N * (4 * M + 4) \<le> top64"
    using bound_numerals(1) by (simp add: M_def N_def c_def)
  with E aW \<beta>(2) show ?thesis by linarith
qed

lemma tol_ok:
  assumes n: "n \<le> items_bound" and \<alpha>: "0 \<le> \<alpha>" "\<alpha> \<le> 7 * u64"
    and \<beta>: "0 \<le> \<beta>" "\<beta> \<le> 6 * eta64 * (field_bound * field_bound + field_bound + 1) + 3 * eta64"
    and W: "0 \<le> W"
  shows "sum_error \<alpha> \<beta> n W \<le> tolerance n W"
proof -
  have "(\<alpha> + u64) * W \<le> (8 * u64) * W"
    using \<alpha>(2) W by (intro mult_right_mono) simp_all
  then have "2 * ((\<alpha> + u64) * W) \<le> 2 * ((8 * u64) * W)"
    by linarith
  also have "\<dots> = (16 * u64) * W"
    by simp
  also have "\<dots> = W / 2 ^ 49"
    by (simp only: bound_numerals(3)) simp
  finally have rel: "2 * ((\<alpha> + u64) * W) \<le> W / 2 ^ 49" .
  have "\<beta> + eta64 \<le> 6 * eta64 * (field_bound * field_bound + field_bound + 1) + 3 * eta64 + eta64"
    using \<beta>(2) by simp
  then have "2 * (\<beta> + eta64) \<le>
      2 * (6 * eta64 * (field_bound * field_bound + field_bound + 1) + 3 * eta64 + eta64)"
    by (rule mult_left_mono) simp
  then have absl: "2 * (\<beta> + eta64) \<le> 1 / 2 ^ 900"
    using bound_numerals(2) by (rule order_trans)
  have "sum_error \<alpha> \<beta> n W \<le> of_nat n * (2 * ((\<alpha> + u64) * W + (\<beta> + eta64)))"
    using n \<alpha>(1) \<beta>(1) W by (rule sum_error_le)
  also have "\<dots> \<le> of_nat n * (W / 2 ^ 49 + 1 / 2 ^ 900)"
    using rel absl by (intro mult_left_mono) simp_all
  finally show ?thesis by (simp add: tolerance_def)
qed

lemma weight_bounds:
  assumes "list_all (bounded_item field_bound) items"
  shows "abs_subtotal items \<le> of_nat (length items) *
           (field_bound * field_bound + field_bound * field_bound * field_bound)"
    and "abs_vatTotal items \<le> of_nat (length items) *
           (field_bound * field_bound + field_bound * field_bound * field_bound)"
    and "abs_subtotal items + abs_vatTotal items \<le> of_nat (length items) *
           (field_bound * field_bound + field_bound * field_bound * field_bound)"
    and "0 \<le> abs_subtotal items" and "0 \<le> abs_vatTotal items"
proof -
  let ?c = "field_bound * field_bound + field_bound * field_bound * field_bound"
  have F: "0 \<le> field_bound * field_bound" "0 \<le> field_bound * field_bound * field_bound"
    using field_bound_facts(1) by simp_all
  have item: "\<bar>num_of (quantity i) * num_of (unitPrice i)\<bar> +
      \<bar>num_of (quantity i) * num_of (unitPrice i) * num_of (vatRate i) / 100\<bar> \<le> ?c"
    if "i \<in> set items" for i
  proof -
    from that assms have "bounded_item field_bound i"
      by (simp add: list_all_iff)
    from item_bounds(1,3) [OF this] show ?thesis by simp
  qed
  show S0: "0 \<le> abs_subtotal items"
    unfolding abs_subtotal_def by (rule sum_list_nonneg) auto
  show V0: "0 \<le> abs_vatTotal items"
    unfolding abs_vatTotal_def by (rule sum_list_nonneg) auto
  have "abs_subtotal items + abs_vatTotal items =
      (\<Sum>i\<leftarrow>items. \<bar>num_of (quantity i) * num_of (unitPrice i)\<bar> +
         \<bar>num_of (quantity i) * num_of (unitPrice i) * num_of (vatRate i) / 100\<bar>)"
    by (simp add: abs_subtotal_def abs_vatTotal_def sum_list_addf)
  also have "\<dots> \<le> of_nat (length items) * ?c"
    by (rule sum_list_le_length) (rule item)
  finally show T: "abs_subtotal items + abs_vatTotal items \<le> of_nat (length items) * ?c" .
  from T V0 show "abs_subtotal items \<le> of_nat (length items) * ?c" by linarith
  from T S0 show "abs_vatTotal items \<le> of_nat (length items) * ?c" by linarith
qed

lemma small_constants:
  "u64 \<le> 1" "5 * u64 \<le> 1" "7 * u64 \<le> 1" "eta64 \<le> 1"
  "3 * eta64 * (field_bound * field_bound + field_bound + 1) \<le> 1"
  "6 * eta64 * (field_bound * field_bound + field_bound + 1) + 3 * eta64 \<le> 1"
  "0 \<le> 3 * eta64 * (field_bound * field_bound + field_bound + 1)"
  "0 \<le> 6 * eta64 * (field_bound * field_bound + field_bound + 1) + 3 * eta64"
  "eta64 \<le> 6 * eta64 * (field_bound * field_bound + field_bound + 1) + 3 * eta64"
  "3 * eta64 * (field_bound * field_bound + field_bound + 1)
     \<le> 6 * eta64 * (field_bound * field_bound + field_bound + 1) + 3 * eta64"
  by (simp_all add: u64_def eta64_def field_bound_def)

lemma subtotal_tolerance:
  assumes fin: "list_all finite_fields items"
    and bnd: "list_all (bounded_item field_bound) items"
    and len: "length items \<le> items_bound"
  shows "\<exists>s. foldl (jadd round64) (Fin 0) (map (lineTotal_of round64) items) = Fin s \<and>
     \<bar>s - spec_subtotal items\<bar> \<le> tolerance (length items) (abs_subtotal items)"
proof -
  let ?X = "\<lambda>i. num_of (quantity i) * num_of (unitPrice i)"
  let ?W = "\<lambda>i. \<bar>num_of (quantity i) * num_of (unitPrice i)\<bar>"
  let ?Y = "\<lambda>i. value_of (lineTotal_of round64 i)"
  have W: "sum_list (map ?W items) = abs_subtotal items"
    by (simp add: abs_subtotal_def)
  have terms: "lineTotal_of round64 i = Fin (?Y i) \<and> \<bar>?Y i - ?X i\<bar> \<le> u64 * ?W i + eta64 \<and> \<bar>?X i\<bar> \<le> ?W i"
    if "i \<in> set items" for i
    using lineTotal_term [of i] that fin bnd by (simp add: list_all_iff)
  have guard: "(1 + u64) * sum_list (map ?W items) + eta64 +
      sum_error u64 eta64 (length items) (sum_list (map ?W items)) \<le> top64"
    unfolding W
    using len u64_nonneg small_constants(1) eta64_nonneg small_constants(4)
      weight_bounds(4) [OF bnd] weight_bounds(1) [OF bnd]
    by (rule guard_ok)
  from fsum_error [of u64 eta64 items "lineTotal_of round64" ?Y ?X ?W, OF u64_nonneg eta64_nonneg terms guard]
  obtain s where s: "foldl (jadd round64) (Fin 0) (map (lineTotal_of round64) items) = Fin s"
    "\<bar>s - sum_list (map ?X items)\<bar> \<le> sum_error u64 eta64 (length items) (abs_subtotal items)"
    unfolding W by blast
  have "sum_error u64 eta64 (length items) (abs_subtotal items)
      \<le> tolerance (length items) (abs_subtotal items)"
    using len u64_nonneg _ eta64_nonneg small_constants(9) weight_bounds(4) [OF bnd]
    by (rule tol_ok) (use u64_nonneg in simp)
  with s show ?thesis by (auto simp: spec_subtotal_def)
qed

lemma vatTotal_tolerance:
  assumes fin: "list_all finite_fields items"
    and bnd: "list_all (bounded_item field_bound) items"
    and len: "length items \<le> items_bound"
  shows "\<exists>v. foldl (jadd round64) (Fin 0) (map (vatAmount_of round64) items) = Fin v \<and>
     \<bar>v - spec_vatTotal items\<bar> \<le> tolerance (length items) (abs_vatTotal items)"
proof -
  let ?X = "\<lambda>i. num_of (quantity i) * num_of (unitPrice i) * (num_of (vatRate i) / 100)"
  let ?W = "\<lambda>i. \<bar>num_of (quantity i) * num_of (unitPrice i) * (num_of (vatRate i) / 100)\<bar>"
  let ?Y = "\<lambda>i. value_of (vatAmount_of round64 i)"
  let ?\<beta> = "3 * eta64 * (field_bound * field_bound + field_bound + 1)"
  have W: "sum_list (map ?W items) = abs_vatTotal items"
    by (simp add: abs_vatTotal_def)
  have X: "sum_list (map ?X items) = spec_vatTotal items"
    by (simp add: spec_vatTotal_def)
  have a0: "0 \<le> 5 * u64" using u64_nonneg by simp
  have terms: "vatAmount_of round64 i = Fin (?Y i) \<and> \<bar>?Y i - ?X i\<bar> \<le> 5 * u64 * ?W i + ?\<beta> \<and> \<bar>?X i\<bar> \<le> ?W i"
    if "i \<in> set items" for i
    using vatAmount_term [of i] that fin bnd by (simp add: list_all_iff)
  have guard: "(1 + 5 * u64) * sum_list (map ?W items) + ?\<beta> +
      sum_error (5 * u64) ?\<beta> (length items) (sum_list (map ?W items)) \<le> top64"
    unfolding W
    using len a0 small_constants(2) small_constants(7) small_constants(5)
      weight_bounds(5) [OF bnd] weight_bounds(2) [OF bnd]
    by (rule guard_ok)
  from fsum_error [of "5 * u64" ?\<beta> items "vatAmount_of round64" ?Y ?X ?W,
      OF a0 small_constants(7) terms guard]
  obtain v where v: "foldl (jadd round64) (Fin 0) (map (vatAmount_of round64) items) = Fin v"
    "\<bar>v - spec_vatTotal items\<bar> \<le> sum_error (5 * u64) ?\<beta> (length items) (abs_vatTotal items)"
    unfolding W X by blast
  have "sum_error (5 * u64) ?\<beta> (length items) (abs_vatTotal items)
      \<le> tolerance (length items) (abs_vatTotal items)"
    using len a0 _ small_constants(7) small_constants(10) weight_bounds(5) [OF bnd]
    by (rule tol_ok) (use u64_nonneg in simp)
  with v show ?thesis by auto
qed

lemma total_tolerance:
  assumes fin: "list_all finite_fields items"
    and bnd: "list_all (bounded_item field_bound) items"
    and len: "length items \<le> items_bound"
  shows "\<exists>t. foldl (jadd round64) (Fin 0)
         (map (\<lambda>i. jadd round64 (lineTotal_of round64 i) (vatAmount_of round64 i)) items) = Fin t \<and>
     \<bar>t - (spec_subtotal items + spec_vatTotal items)\<bar>
       \<le> tolerance (length items) (abs_subtotal items + abs_vatTotal items)"
proof -
  let ?L = "\<lambda>i. num_of (quantity i) * num_of (unitPrice i)"
  let ?V = "\<lambda>i. num_of (quantity i) * num_of (unitPrice i) * (num_of (vatRate i) / 100)"
  let ?X = "\<lambda>i. ?L i + ?V i"
  let ?W = "\<lambda>i. \<bar>?L i\<bar> + \<bar>?V i\<bar>"
  let ?T = "\<lambda>i. jadd round64 (lineTotal_of round64 i) (vatAmount_of round64 i)"
  let ?Y = "\<lambda>i. value_of (?T i)"
  let ?\<beta> = "6 * eta64 * (field_bound * field_bound + field_bound + 1) + 3 * eta64"
  have W: "sum_list (map ?W items) = abs_subtotal items + abs_vatTotal items"
    by (simp add: abs_subtotal_def abs_vatTotal_def sum_list_addf)
  have X: "sum_list (map ?X items) = spec_subtotal items + spec_vatTotal items"
    by (simp add: spec_subtotal_def spec_vatTotal_def sum_list_addf)
  have a0: "0 \<le> 7 * u64" using u64_nonneg by simp
  have W0: "0 \<le> abs_subtotal items + abs_vatTotal items"
    using weight_bounds(4,5) [OF bnd] by simp
  have terms: "?T i = Fin (?Y i) \<and> \<bar>?Y i - ?X i\<bar> \<le> 7 * u64 * ?W i + ?\<beta> \<and> \<bar>?X i\<bar> \<le> ?W i"
    if "i \<in> set items" for i
  proof -
    from that fin bnd have "finite_fields i" "bounded_item field_bound i"
      by (simp_all add: list_all_iff)
    from total_term [OF this] show ?thesis
      using abs_triangle_ineq [of "?L i" "?V i"] by simp
  qed
  have guard: "(1 + 7 * u64) * sum_list (map ?W items) + ?\<beta> +
      sum_error (7 * u64) ?\<beta> (length items) (sum_list (map ?W items)) \<le> top64"
    unfolding W
    using len a0 small_constants(3) small_constants(8) small_constants(6)
      W0 weight_bounds(3) [OF bnd]
    by (rule guard_ok)
  from fsum_error [of "7 * u64" ?\<beta> items ?T ?Y ?X ?W, OF a0 small_constants(8) terms guard]
  obtain t where t: "foldl (jadd round64) (Fin 0) (map ?T items) = Fin t"
    "\<bar>t - (spec_subtotal items + spec_vatTotal items)\<bar>
       \<le> sum_error (7 * u64) ?\<beta> (length items) (abs_subtotal items + abs_vatTotal items)"
    unfolding W X by blast
  have "sum_error (7 * u64) ?\<beta> (length items) (abs_subtotal items + abs_vatTotal items)
      \<le> tolerance (length items) (abs_subtotal items + abs_vatTotal items)"
    using len a0 _ small_constants(8) _ W0
    by (rule tol_ok) simp_all
  with t show ?thesis by auto
qed

text \<open>
  The three returned numbers are finite and within the tolerance of the exact sums, for
  items whose defined fields are finite: a NaN, null or missing field counts as 0.
\<close>

lemma totals_tolerance:
  assumes fin: "list_all finite_fields items"
    and bnd: "list_all (bounded_item field_bound) items"
    and len: "length items \<le> items_bound"
  shows "is_finite (subtotal (totals items)) \<and> is_finite (vatTotal (totals items)) \<and>
     is_finite (total (totals items)) \<and>
     \<bar>value_of (subtotal (totals items)) - spec_subtotal items\<bar>
       \<le> tolerance (length items) (abs_subtotal items) \<and>
     \<bar>value_of (vatTotal (totals items)) - spec_vatTotal items\<bar>
       \<le> tolerance (length items) (abs_vatTotal items) \<and>
     \<bar>value_of (total (totals items)) - (spec_subtotal items + spec_vatTotal items)\<bar>
       \<le> tolerance (length items) (abs_subtotal items + abs_vatTotal items)"
proof -
  from subtotal_tolerance [OF assms] obtain s where
    s: "foldl (jadd round64) (Fin 0) (map (lineTotal_of round64) items) = Fin s"
      "\<bar>s - spec_subtotal items\<bar> \<le> tolerance (length items) (abs_subtotal items)"
    by blast
  from vatTotal_tolerance [OF assms] obtain v where
    v: "foldl (jadd round64) (Fin 0) (map (vatAmount_of round64) items) = Fin v"
      "\<bar>v - spec_vatTotal items\<bar> \<le> tolerance (length items) (abs_vatTotal items)"
    by blast
  from total_tolerance [OF assms] obtain t where
    t: "foldl (jadd round64) (Fin 0)
         (map (\<lambda>i. jadd round64 (lineTotal_of round64 i) (vatAmount_of round64 i)) items) = Fin t"
      "\<bar>t - (spec_subtotal items + spec_vatTotal items)\<bar>
         \<le> tolerance (length items) (abs_subtotal items + abs_vatTotal items)"
    by blast
  have "totals items = \<lparr> subtotal = Fin s, vatTotal = Fin v, total = Fin t \<rparr>"
    by (simp add: totals_def totals_in_split s(1) v(1) t(1))
  with s(2) v(2) t(2) show ?thesis by simp
qed

subsection \<open>Evaluating a rounding\<close>

lemma rne_eqI: "\<bar>y - of_int m\<bar> < 1 / 2 \<Longrightarrow> rne y = m"
proof -
  assume near: "\<bar>y - of_int m\<bar> < 1 / 2"
  then have lo: "of_int m - 1 / 2 < y" and hi: "y < of_int m + 1 / 2"
    by linarith+
  have "of_int (m - 1) \<le> y" using lo by simp
  then have f1: "m - 1 \<le> \<lfloor>y\<rfloor>" by (simp only: le_floor_iff)
  have "y < of_int (m + 1)" using hi by simp
  then have f2: "\<lfloor>y\<rfloor> < m + 1" by (simp only: floor_less_iff)
  from f1 f2 consider "\<lfloor>y\<rfloor> = m" | "\<lfloor>y\<rfloor> = m - 1"
    by linarith
  then show ?thesis
  proof cases
    case 1
    with hi show ?thesis
      by (simp add: rne_def Let_def)
  next
    case 2
    with lo show ?thesis
      by (simp add: rne_def Let_def)
  qed
qed

text \<open>
  Evaluating a rounding from the spacing \<open>U\<close> at \<open>x\<close> and the nearest multiple \<open>m * U\<close>.
\<close>

lemma round64_eqI:
  assumes "ulp \<bar>x\<bar> = U" "0 < U" "\<bar>x / U - of_int m\<bar> < 1 / 2" "\<bar>of_int m * U\<bar> < 2 ^ 1024"
  shows "round64 x = Fin (of_int m * U)"
  using assms by (simp add: round64_def rne_eqI abs_less_iff not_le)

lemma round64_0: "round64 0 = Fin 0"
  by (simp add: round64_def rne_def)

lemma halvings_le_fuel: "halvings n a \<le> n"
  by (induction n arbitrary: a) simp_all

lemma rne_ge: "of_int m \<le> y \<Longrightarrow> m \<le> rne y"
proof -
  assume "of_int m \<le> y"
  then have "m \<le> \<lfloor>y\<rfloor>" by (simp add: le_floor_iff)
  moreover have "\<lfloor>y\<rfloor> \<le> rne y" by (simp add: rne_def Let_def)
  ultimately show ?thesis by simp
qed

text \<open>
  A value of at least \<open>2^1024\<close> rounds to Infinity.
\<close>

lemma round64_overflow:
  assumes "2 ^ 1024 \<le> x"
  shows "round64 x = PInf"
proof -
  let ?k = "halvings 1024 \<bar>x\<bar>"
  let ?U = "ulp \<bar>x\<bar>"
  have x1: "1 \<le> \<bar>x\<bar>" and x0: "0 \<le> x"
    using assms by (simp_all add: order_trans [of 1 "2 ^ 1024" x] order_trans [of 0 "2 ^ 1024" x])
  have k: "?k \<le> 1076"
    using halvings_le_fuel [of 1024 "\<bar>x\<bar>"] by simp
  have U: "?U = 2 ^ ?k / 2 ^ 52" using x1 by (simp add: ulp_def)
  have U0: "0 < ?U" by (rule ulp_pos)
  define m :: int where "m = 2 ^ (1076 - ?k)"
  have "of_int m * ?U = (2 ^ (1076 - ?k) * 2 ^ ?k) / 2 ^ 52"
    by (simp add: m_def U)
  also have "(2::rat) ^ (1076 - ?k) * 2 ^ ?k = 2 ^ 1076"
    using k by (simp flip: power_add)
  also have "(2::rat) ^ 1076 / 2 ^ 52 = 2 ^ 1024"
    by simp
  finally have mU: "of_int m * ?U = 2 ^ 1024" .
  then have "of_int m * ?U \<le> x" using assms by simp
  then have "of_int m \<le> x / ?U"
    using U0 by (simp add: pos_le_divide_eq)
  then have "m \<le> rne (x / ?U)" by (rule rne_ge)
  then have "(of_int m :: rat) \<le> of_int (rne (x / ?U))" by simp
  then have "of_int m * ?U \<le> of_int (rne (x / ?U)) * ?U"
    using U0 by (intro mult_right_mono) simp_all
  then have "2 ^ 1024 \<le> of_int (rne (x / ?U)) * ?U"
    using mU by simp
  then show ?thesis by (simp add: round64_def Let_def)
qed

lemmas ulp_eval = ulp_def halvings_numeral doublings_numeral

text \<open>
  The reduction on the single item of 2 units at 100 with 22 percent VAT: \<open>22 / 100\<close> rounds
  to the binary64 value nearest to 0.22, and 200 times that value rounds to exactly 44.
\<close>

lemma example_totals:
  "totals [\<lparr> id' = i, description = Some ''Consulenza'', quantity = Num (Fin 2),
             unitPrice = Num (Fin 100), vatRate = Num (Fin 22), vatNature = n \<rparr>] =
     \<lparr> subtotal = Fin 200, vatTotal = Fin 44, total = Fin 244 \<rparr>"
proof -
  have lt: "jmul round64 (Fin 2) (Fin 100) = Fin 200"
    using round64_eqI [of 200 "1 / 2 ^ 45" "200 * 2 ^ 45"] by (simp add: ulp_eval)
  have rate: "jdiv100 round64 (Fin 22) = Fin (7926335344172073 / 2 ^ 55)"
    using round64_eqI [of "22 / 100" "1 / 2 ^ 55" 7926335344172073] by (simp add: ulp_eval)
  have va: "jmul round64 (Fin 200) (Fin (7926335344172073 / 2 ^ 55)) = Fin 44"
    using round64_eqI [of "200 * (7926335344172073 / 2 ^ 55)" "1 / 2 ^ 47" "44 * 2 ^ 47"]
    by (simp add: ulp_eval)
  have s: "jadd round64 (Fin 0) (Fin 200) = Fin 200"
    using round64_eqI [of 200 "1 / 2 ^ 45" "200 * 2 ^ 45"] by (simp add: ulp_eval)
  have v: "jadd round64 (Fin 0) (Fin 44) = Fin 44"
    using round64_eqI [of 44 "1 / 2 ^ 47" "44 * 2 ^ 47"] by (simp add: ulp_eval)
  have tv: "jadd round64 (Fin 200) (Fin 44) = Fin 244"
    using round64_eqI [of 244 "1 / 2 ^ 45" "244 * 2 ^ 45"] by (simp add: ulp_eval)
  have t: "jadd round64 (Fin 0) (Fin 244) = Fin 244"
    using round64_eqI [of 244 "1 / 2 ^ 45" "244 * 2 ^ 45"] by (simp add: ulp_eval)
  have q: "or0 (Num (Fin 2)) = Fin 2" and p: "or0 (Num (Fin 100)) = Fin 100"
    and r: "or0 (Num (Fin 22)) = Fin 22"
    by simp_all
  show ?thesis
    by (simp only: totals_def totals_in_def totals_step_def foldl.simps Let_def
        LineItem.select_convs Totals.select_convs q p r lt rate va s v tv t)
qed

subsection \<open>Exact arithmetic\<close>

lemma foldl_jadd_exact:
  "(\<And>i. i \<in> set xs \<Longrightarrow> T i = Fin (X i)) \<Longrightarrow>
   foldl (jadd exact) (Fin s) (map T xs) = Fin (s + sum_list (map X xs))"
  by (induction xs arbitrary: s) (simp_all add: exact_def add.assoc)

lemma exact_terms:
  assumes "finite_fields i"
  shows "lineTotal_of exact i = Fin (num_of (quantity i) * num_of (unitPrice i))"
    and "vatAmount_of exact i =
      Fin (num_of (quantity i) * num_of (unitPrice i) * num_of (vatRate i) / 100)"
  using assms
  by (simp_all add: lineTotal_of_def vatAmount_of_def finite_fields_def or0_num_of exact_def)

text \<open>
  Over exact arithmetic the reduction returns the sums of the specification.
\<close>

lemma totals_in_exact:
  assumes "list_all finite_fields items"
  shows "totals_in exact items =
     \<lparr> subtotal = Fin (spec_subtotal items), vatTotal = Fin (spec_vatTotal items),
       total = Fin (spec_subtotal items + spec_vatTotal items) \<rparr>"
proof -
  have fin: "finite_fields i" if "i \<in> set items" for i
    using that assms by (simp add: list_all_iff)
  have "foldl (jadd exact) (Fin 0) (map (lineTotal_of exact) items) = Fin (0 + spec_subtotal items)"
    unfolding spec_subtotal_def
    by (rule foldl_jadd_exact) (simp add: exact_terms fin)
  moreover have "foldl (jadd exact) (Fin 0) (map (vatAmount_of exact) items) =
      Fin (0 + spec_vatTotal items)"
    unfolding spec_vatTotal_def
    by (rule foldl_jadd_exact) (simp add: exact_terms fin)
  moreover have "foldl (jadd exact) (Fin 0)
      (map (\<lambda>i. jadd exact (lineTotal_of exact i) (vatAmount_of exact i)) items) =
      Fin (0 + (\<Sum>i\<leftarrow>items. num_of (quantity i) * num_of (unitPrice i) +
        num_of (quantity i) * num_of (unitPrice i) * num_of (vatRate i) / 100))"
    by (rule foldl_jadd_exact) (simp add: exact_terms fin exact_def)
  ultimately show ?thesis
    by (simp add: totals_in_split spec_subtotal_def spec_vatTotal_def sum_list_addf)
qed

lemma decimal_finite: "decimal_item i \<Longrightarrow> finite_fields i"
  by (cases "quantity i" rule: is_decimal.cases; cases "unitPrice i" rule: is_decimal.cases;
      cases "vatRate i" rule: is_decimal.cases) (simp_all add: decimal_item_def finite_fields_def)

lemma list_all_decimal_finite: "list_all decimal_item items \<Longrightarrow> list_all finite_fields items"
  by (induction items) (simp_all add: decimal_finite)

text \<open>
  A reduction whose step does not distinguish an item from its image under \<open>f\<close>.
\<close>

lemma foldl_map_same:
  "(\<And>acc x. f acc (g x) = f acc x) \<Longrightarrow> foldl f a (map g xs) = foldl f a xs"
  by (induction xs arbitrary: a) simp_all

lemma or0_zero_if_missing: "or0 (zero_if_missing v) = or0 v"
  by (cases v) simp_all

lemma totals_step_fill_missing: "totals_step rnd acc (fill_missing i) = totals_step rnd acc i"
  by (simp add: totals_step_def fill_missing_def or0_zero_if_missing)

lemma or0_missing_if_nan_or_null: "or0 (missing_if_nan_or_null v) = or0 v"
  by (cases v rule: missing_if_nan_or_null.cases) simp_all

lemma totals_step_drop_nan_null: "totals_step rnd acc (drop_nan_null i) = totals_step rnd acc i"
  by (simp add: totals_step_def drop_nan_null_def or0_missing_if_nan_or_null)

lemma tolerance_mono: "w \<le> w' \<Longrightarrow> tolerance n w \<le> tolerance n w'"
  unfolding tolerance_def by (intro mult_left_mono add_mono divide_right_mono) simp_all

subsection \<open>The claims about the calculator\<close>

text \<open>
  C1, as stated, fails: the item below is a line item with decimal fields (quantity
  \<open>2^1000\<close>, unit price \<open>2^24\<close>, VAT rate 0) whose exact VAT total is 0, yet its line
  total overflows to Infinity, its VAT amount is Infinity times 0, and the calculator
  returns NaN for vatTotal and for total.
\<close>

theorem totals_overflow_counterexample:
  "decimal_item
     \<lparr> id' = Some ''a'', description = Some ''x'', quantity = Num (Fin (2 ^ 1000)),
       unitPrice = Num (Fin (2 ^ 24)), vatRate = Num (Fin 0), vatNature = None \<rparr> \<and>
   spec_vatTotal
     [\<lparr> id' = Some ''a'', description = Some ''x'', quantity = Num (Fin (2 ^ 1000)),
        unitPrice = Num (Fin (2 ^ 24)), vatRate = Num (Fin 0), vatNature = None \<rparr>] = 0 \<and>
   totals
     [\<lparr> id' = Some ''a'', description = Some ''x'', quantity = Num (Fin (2 ^ 1000)),
        unitPrice = Num (Fin (2 ^ 24)), vatRate = Num (Fin 0), vatNature = None \<rparr>] =
     \<lparr> subtotal = PInf, vatTotal = NaN, total = NaN \<rparr>"
proof -
  have "round64 (2 ^ 1000 * 2 ^ 24) = PInf"
    by (rule round64_overflow) simp
  then show ?thesis
    by (simp add: totals_def totals_in_def totals_step_def round64_0 decimal_item_def
        spec_vatTotal_def)
qed

text \<open>
  C1, amended. For every sequence of line items with decimal fields: over exact arithmetic
  the calculator returns exactly subtotal = \<Sigma>(quantity \<times> unitPrice),
  vatTotal = \<Sigma>(quantity \<times> unitPrice \<times> vatRate/100) and total = subtotal + vatTotal; in
  the language's arithmetic, for at most \<open>2^32\<close> items whose fields are at most \<open>2^64\<close>
  in absolute value, each returned number is finite and within the tolerance
  \<open>n * (w / 2^49 + 1 / 2^900)\<close> of the exact sum, \<open>n\<close> being the number of items and
  \<open>w\<close> the sum of the absolute values of the terms, and total is within three such
  tolerances of subtotal + vatTotal; for the single item of 2 units at 100 with 22 percent
  VAT it returns exactly 200, 44 and 244.
\<close>

theorem totals_are_the_sums:
  "(list_all decimal_item items \<longrightarrow>
      totals_in exact items =
        \<lparr> subtotal = Fin (spec_subtotal items), vatTotal = Fin (spec_vatTotal items),
          total = Fin (spec_subtotal items + spec_vatTotal items) \<rparr>) \<and>
   (list_all decimal_item items \<and> list_all (bounded_item field_bound) items \<and>
    length items \<le> items_bound \<longrightarrow>
      is_finite (subtotal (totals items)) \<and> is_finite (vatTotal (totals items)) \<and>
      is_finite (total (totals items)) \<and>
      \<bar>value_of (subtotal (totals items)) - spec_subtotal items\<bar>
        \<le> tolerance (length items) (abs_subtotal items) \<and>
      \<bar>value_of (vatTotal (totals items)) - spec_vatTotal items\<bar>
        \<le> tolerance (length items) (abs_vatTotal items) \<and>
      \<bar>value_of (total (totals items)) - (spec_subtotal items + spec_vatTotal items)\<bar>
        \<le> tolerance (length items) (abs_subtotal items + abs_vatTotal items) \<and>
      \<bar>value_of (total (totals items)) -
         (value_of (subtotal (totals items)) + value_of (vatTotal (totals items)))\<bar>
        \<le> 3 * tolerance (length items) (abs_subtotal items + abs_vatTotal items)) \<and>
   totals [\<lparr> id' = i, description = Some ''Consulenza'', quantity = Num (Fin 2),
             unitPrice = Num (Fin 100), vatRate = Num (Fin 22), vatNature = n \<rparr>] =
     \<lparr> subtotal = Fin 200, vatTotal = Fin 44, total = Fin 244 \<rparr>"
proof (intro conjI impI)
  assume "list_all decimal_item items"
  then show "totals_in exact items =
        \<lparr> subtotal = Fin (spec_subtotal items), vatTotal = Fin (spec_vatTotal items),
          total = Fin (spec_subtotal items + spec_vatTotal items) \<rparr>"
    by (intro totals_in_exact list_all_decimal_finite)
next
  show "totals [\<lparr> id' = i, description = Some ''Consulenza'', quantity = Num (Fin 2),
             unitPrice = Num (Fin 100), vatRate = Num (Fin 22), vatNature = n \<rparr>] =
     \<lparr> subtotal = Fin 200, vatTotal = Fin 44, total = Fin 244 \<rparr>"
    by (rule example_totals)
next
  assume "list_all decimal_item items \<and> list_all (bounded_item field_bound) items \<and>
    length items \<le> items_bound"
  then have hyps: "list_all finite_fields items" "list_all (bounded_item field_bound) items"
    "length items \<le> items_bound"
    by (simp_all add: list_all_decimal_finite)
  note tol = totals_tolerance [OF hyps]
  show "is_finite (subtotal (totals items))" "is_finite (vatTotal (totals items))"
    "is_finite (total (totals items))"
    "\<bar>value_of (subtotal (totals items)) - spec_subtotal items\<bar>
        \<le> tolerance (length items) (abs_subtotal items)"
    "\<bar>value_of (vatTotal (totals items)) - spec_vatTotal items\<bar>
        \<le> tolerance (length items) (abs_vatTotal items)"
    "\<bar>value_of (total (totals items)) - (spec_subtotal items + spec_vatTotal items)\<bar>
        \<le> tolerance (length items) (abs_subtotal items + abs_vatTotal items)"
    using tol by simp_all
  have "tolerance (length items) (abs_subtotal items)
      \<le> tolerance (length items) (abs_subtotal items + abs_vatTotal items)"
    using weight_bounds(5) [OF hyps(2)] by (intro tolerance_mono) simp
  moreover have "tolerance (length items) (abs_vatTotal items)
      \<le> tolerance (length items) (abs_subtotal items + abs_vatTotal items)"
    using weight_bounds(4) [OF hyps(2)] by (intro tolerance_mono) simp
  ultimately show "\<bar>value_of (total (totals items)) -
         (value_of (subtotal (totals items)) + value_of (vatTotal (totals items)))\<bar>
        \<le> 3 * tolerance (length items) (abs_subtotal items + abs_vatTotal items)"
    using tol by linarith
qed

theorem totals_are_the_sums_witness:
  "list_all decimal_item
     [\<lparr> id' = Some ''a'', description = Some ''Consulenza'', quantity = Num (Fin 2),
        unitPrice = Num (Fin 100), vatRate = Num (Fin 22), vatNature = None \<rparr>,
      \<lparr> id' = Some ''b'', description = Some ''Licenza'', quantity = Num (Fin 3),
        unitPrice = Num (Fin (39 / 2)), vatRate = Num (Fin 10), vatNature = None \<rparr>] \<and>
   list_all (bounded_item field_bound)
     [\<lparr> id' = Some ''a'', description = Some ''Consulenza'', quantity = Num (Fin 2),
        unitPrice = Num (Fin 100), vatRate = Num (Fin 22), vatNature = None \<rparr>,
      \<lparr> id' = Some ''b'', description = Some ''Licenza'', quantity = Num (Fin 3),
        unitPrice = Num (Fin (39 / 2)), vatRate = Num (Fin 10), vatNature = None \<rparr>] \<and>
   (2::nat) \<le> items_bound \<and>
   totals_in exact
     [\<lparr> id' = Some ''a'', description = Some ''Consulenza'', quantity = Num (Fin 2),
        unitPrice = Num (Fin 100), vatRate = Num (Fin 22), vatNature = None \<rparr>,
      \<lparr> id' = Some ''b'', description = Some ''Licenza'', quantity = Num (Fin 3),
        unitPrice = Num (Fin (39 / 2)), vatRate = Num (Fin 10), vatNature = None \<rparr>] =
     \<lparr> subtotal = Fin (517 / 2), vatTotal = Fin (997 / 20), total = Fin (6167 / 20) \<rparr> \<and>
   is_finite (subtotal (totals
     [\<lparr> id' = Some ''a'', description = Some ''Consulenza'', quantity = Num (Fin 2),
        unitPrice = Num (Fin 100), vatRate = Num (Fin 22), vatNature = None \<rparr>,
      \<lparr> id' = Some ''b'', description = Some ''Licenza'', quantity = Num (Fin 3),
        unitPrice = Num (Fin (39 / 2)), vatRate = Num (Fin 10), vatNature = None \<rparr>])) \<and>
   \<bar>value_of (subtotal (totals
     [\<lparr> id' = Some ''a'', description = Some ''Consulenza'', quantity = Num (Fin 2),
        unitPrice = Num (Fin 100), vatRate = Num (Fin 22), vatNature = None \<rparr>,
      \<lparr> id' = Some ''b'', description = Some ''Licenza'', quantity = Num (Fin 3),
        unitPrice = Num (Fin (39 / 2)), vatRate = Num (Fin 10), vatNature = None \<rparr>])) - 517 / 2\<bar>
     \<le> tolerance 2 (517 / 2) \<and>
   \<bar>value_of (vatTotal (totals
     [\<lparr> id' = Some ''a'', description = Some ''Consulenza'', quantity = Num (Fin 2),
        unitPrice = Num (Fin 100), vatRate = Num (Fin 22), vatNature = None \<rparr>,
      \<lparr> id' = Some ''b'', description = Some ''Licenza'', quantity = Num (Fin 3),
        unitPrice = Num (Fin (39 / 2)), vatRate = Num (Fin 10), vatNature = None \<rparr>])) - 997 / 20\<bar>
     \<le> tolerance 2 (997 / 20) \<and>
   \<bar>value_of (total (totals
     [\<lparr> id' = Some ''a'', description = Some ''Consulenza'', quantity = Num (Fin 2),
        unitPrice = Num (Fin 100), vatRate = Num (Fin 22), vatNature = None \<rparr>,
      \<lparr> id' = Some ''b'', description = Some ''Licenza'', quantity = Num (Fin 3),
        unitPrice = Num (Fin (39 / 2)), vatRate = Num (Fin 10), vatNature = None \<rparr>])) - 6167 / 20\<bar>
     \<le> tolerance 2 (6167 / 20)"
  using totals_are_the_sums
    [of "[\<lparr> id' = Some ''a'', description = Some ''Consulenza'', quantity = Num (Fin 2),
            unitPrice = Num (Fin 100), vatRate = Num (Fin 22), vatNature = None \<rparr>,
          \<lparr> id' = Some ''b'', description = Some ''Licenza'', quantity = Num (Fin 3),
            unitPrice = Num (Fin (39 / 2)), vatRate = Num (Fin 10), vatNature = None \<rparr>]"]
  by (simp add: decimal_item_def bounded_item_def field_bound_def items_bound_def
      spec_subtotal_def spec_vatTotal_def abs_subtotal_def abs_vatTotal_def tolerance_def)

text \<open>
  C5. On the empty sequence of line items the calculator returns subtotal 0, vatTotal 0 and
  total 0.
\<close>

theorem totals_empty:
  "totals [] = \<lparr> subtotal = Fin 0, vatTotal = Fin 0, total = Fin 0 \<rparr>"
  by (simp add: totals_def totals_in_def)

text \<open>
  C6. A missing quantity, unitPrice or vatRate counts as 0: the totals of any sequence equal
  the totals of the same sequence with every missing numeric field replaced by 0.
\<close>

theorem totals_missing_as_zero:
  "totals (map fill_missing items) = totals items"
  unfolding totals_def totals_in_def by (rule foldl_map_same) (rule totals_step_fill_missing)

theorem totals_missing_as_zero_witness:
  "totals
     [\<lparr> id' = Some ''a'', description = Some '''', quantity = Undefined,
        unitPrice = Num (Fin 100), vatRate = Num (Fin 22), vatNature = None \<rparr>,
      \<lparr> id' = Some ''b'', description = Some '''', quantity = Num (Fin 2),
        unitPrice = Num (Fin 100), vatRate = Undefined, vatNature = None \<rparr>] =
   totals
     [\<lparr> id' = Some ''a'', description = Some '''', quantity = Num (Fin 0),
        unitPrice = Num (Fin 100), vatRate = Num (Fin 22), vatNature = None \<rparr>,
      \<lparr> id' = Some ''b'', description = Some '''', quantity = Num (Fin 2),
        unitPrice = Num (Fin 100), vatRate = Num (Fin 0), vatNature = None \<rparr>]"
  using totals_missing_as_zero
    [of "[\<lparr> id' = Some ''a'', description = Some '''', quantity = Undefined,
            unitPrice = Num (Fin 100), vatRate = Num (Fin 22), vatNature = None \<rparr>,
          \<lparr> id' = Some ''b'', description = Some '''', quantity = Num (Fin 2),
            unitPrice = Num (Fin 100), vatRate = Undefined, vatNature = None \<rparr>]"]
  by (simp add: fill_missing_def)

text \<open>
  C9, as stated, fails: the fields of the item below are finite, yet its line total
  \<open>2^1023 * 2\<close> is beyond the number range and becomes Infinity, the VAT amount is
  Infinity times \<open>0 / 100\<close>, which is NaN, and so are vatTotal and total.
\<close>

theorem totals_nan_counterexample:
  "finite_fields
     \<lparr> id' = Some ''a'', description = Some ''x'', quantity = Num (Fin (2 ^ 1023)),
       unitPrice = Num (Fin 2), vatRate = Num (Fin 0), vatNature = None \<rparr> \<and>
   totals
     [\<lparr> id' = Some ''a'', description = Some ''x'', quantity = Num (Fin (2 ^ 1023)),
        unitPrice = Num (Fin 2), vatRate = Num (Fin 0), vatNature = None \<rparr>] =
     \<lparr> subtotal = PInf, vatTotal = NaN, total = NaN \<rparr>"
proof -
  have "round64 (2 ^ 1023 * 2) = PInf"
    by (rule round64_overflow) simp
  then show ?thesis
    by (simp add: totals_def totals_in_def totals_step_def round64_0 finite_fields_def)
qed

text \<open>
  C9, amended. A quantity, unitPrice or vatRate that is NaN or null is treated exactly like
  a missing field, so it contributes 0 to every sum; for every sequence of at most
  \<open>2^32\<close> items whose defined numeric fields are finite and at most \<open>2^64\<close> in absolute
  value, bounds under which no product and no running sum overflows, the returned
  subtotal, vatTotal and total are finite numbers, never NaN, and lie within the
  tolerance of the sums in which NaN, null and missing fields count as 0.
\<close>

theorem totals_nan_null_as_missing:
  "totals (map drop_nan_null items) = totals items \<and>
   (list_all finite_fields items \<and> list_all (bounded_item field_bound) items \<and>
    length items \<le> items_bound \<longrightarrow>
      is_finite (subtotal (totals items)) \<and> is_finite (vatTotal (totals items)) \<and>
      is_finite (total (totals items)) \<and>
      \<bar>value_of (subtotal (totals items)) - spec_subtotal items\<bar>
        \<le> tolerance (length items) (abs_subtotal items) \<and>
      \<bar>value_of (vatTotal (totals items)) - spec_vatTotal items\<bar>
        \<le> tolerance (length items) (abs_vatTotal items) \<and>
      \<bar>value_of (total (totals items)) - (spec_subtotal items + spec_vatTotal items)\<bar>
        \<le> tolerance (length items) (abs_subtotal items + abs_vatTotal items))"
proof
  show "totals (map drop_nan_null items) = totals items"
    unfolding totals_def totals_in_def
    by (rule foldl_map_same) (rule totals_step_drop_nan_null)
  show "list_all finite_fields items \<and> list_all (bounded_item field_bound) items \<and>
    length items \<le> items_bound \<longrightarrow>
      is_finite (subtotal (totals items)) \<and> is_finite (vatTotal (totals items)) \<and>
      is_finite (total (totals items)) \<and>
      \<bar>value_of (subtotal (totals items)) - spec_subtotal items\<bar>
        \<le> tolerance (length items) (abs_subtotal items) \<and>
      \<bar>value_of (vatTotal (totals items)) - spec_vatTotal items\<bar>
        \<le> tolerance (length items) (abs_vatTotal items) \<and>
      \<bar>value_of (total (totals items)) - (spec_subtotal items + spec_vatTotal items)\<bar>
        \<le> tolerance (length items) (abs_subtotal items + abs_vatTotal items)"
    using totals_tolerance [of items] by blast
qed

theorem totals_nan_null_as_missing_witness:
  "list_all finite_fields
     [\<lparr> id' = Some ''a'', description = Some '''', quantity = Num NaN,
        unitPrice = Num (Fin 5), vatRate = Null, vatNature = None \<rparr>,
      \<lparr> id' = Some ''b'', description = Some '''', quantity = Num (Fin 2),
        unitPrice = Num (Fin 100), vatRate = Num (Fin 22), vatNature = None \<rparr>] \<and>
   list_all (bounded_item field_bound)
     [\<lparr> id' = Some ''a'', description = Some '''', quantity = Num NaN,
        unitPrice = Num (Fin 5), vatRate = Null, vatNature = None \<rparr>,
      \<lparr> id' = Some ''b'', description = Some '''', quantity = Num (Fin 2),
        unitPrice = Num (Fin 100), vatRate = Num (Fin 22), vatNature = None \<rparr>] \<and>
   (2::nat) \<le> items_bound \<and>
   totals
     [\<lparr> id' = Some ''a'', description = Some '''', quantity = Undefined,
        unitPrice = Num (Fin 5), vatRate = Undefined, vatNature = None \<rparr>,
      \<lparr> id' = Some ''b'', description = Some '''', quantity = Num (Fin 2),
        unitPrice = Num (Fin 100), vatRate = Num (Fin 22), vatNature = None \<rparr>] =
   totals
     [\<lparr> id' = Some ''a'', description = Some '''', quantity = Num NaN,
        unitPrice = Num (Fin 5), vatRate = Null, vatNature = None \<rparr>,
      \<lparr> id' = Some ''b'', description = Some '''', quantity = Num (Fin 2),
        unitPrice = Num (Fin 100), vatRate = Num (Fin 22), vatNature = None \<rparr>] \<and>
   is_finite (subtotal (totals
     [\<lparr> id' = Some ''a'', description = Some '''', quantity = Num NaN,
        unitPrice = Num (Fin 5), vatRate = Null, vatNature = None \<rparr>,
      \<lparr> id' = Some ''b'', description = Some '''', quantity = Num (Fin 2),
        unitPrice = Num (Fin 100), vatRate = Num (Fin 22), vatNature = None \<rparr>])) \<and>
   is_finite (vatTotal (totals
     [\<lparr> id' = Some ''a'', description = Some '''', quantity = Num NaN,
        unitPrice = Num (Fin 5), vatRate = Null, vatNature = None \<rparr>,
      \<lparr> id' = Some ''b'', description = Some '''', quantity = Num (Fin 2),
        unitPrice = Num (Fin 100), vatRate = Num (Fin 22), vatNature = None \<rparr>])) \<and>
   is_finite (total (totals
     [\<lparr> id' = Some ''a'', description = Some '''', quantity = Num NaN,
        unitPrice = Num (Fin 5), vatRate = Null, vatNature = None \<rparr>,
      \<lparr> id' = Some ''b'', description = Some '''', quantity = Num (Fin 2),
        unitPrice = Num (Fin 100), vatRate = Num (Fin 22), vatNature = None \<rparr>]))"
  using totals_nan_null_as_missing
    [of "[\<lparr> id' = Some ''a'', description = Some '''', quantity = Num NaN,
            unitPrice = Num (Fin 5), vatRate = Null, vatNature = None \<rparr>,
          \<lparr> id' = Some ''b'', description = Some '''', quantity = Num (Fin 2),
            unitPrice = Num (Fin 100), vatRate = Num (Fin 22), vatNature = None \<rparr>]"]
  by (simp add: finite_fields_def bounded_item_def field_bound_def items_bound_def
      drop_nan_null_def)

section \<open>The line-item list editor: properties\<close>

lemma length_remove':
  "length (remove' index flds) = (if index < length flds then length flds - 1 else length flds)"
  by (auto simp: remove'_def)

lemma fire_nonempty: "flds \<noteq> [] \<Longrightarrow> fire flds ev \<noteq> []"
proof (cases ev)
  case (Add uuid)
  then show ?thesis by (simp add: addLineItem_def append'_def)
next
  case (Remove index)
  assume nonempty: "flds \<noteq> []"
  show ?thesis
  proof (cases "1 < length flds")
    case True
    then have "0 < length (remove' index flds)"
      by (auto simp: length_remove')
    with True Remove show ?thesis by simp
  next
    case False
    with Remove nonempty show ?thesis by simp
  qed
qed

lemma foldl_fire_nonempty: "flds \<noteq> [] \<Longrightarrow> foldl fire flds events \<noteq> []"
proof (induction events arbitrary: flds)
  case Nil
  then show ?case by simp
next
  case (Cons ev events)
  from Cons.prems have "fire flds ev \<noteq> []" by (rule fire_nonempty)
  then have "foldl fire (fire flds ev) events \<noteq> []" by (rule Cons.IH)
  then show ?case by simp
qed

text \<open>
  C4. Starting from the one default item, after every sequence of Add and Remove(index)
  events the list has at least one item; on a list of exactly one item Remove changes
  nothing.
\<close>

theorem editor_never_empty:
  "1 \<le> length (run uuid events) \<and>
   (length flds = 1 \<longrightarrow> fire flds (Remove index) = flds)"
proof -
  have "run uuid events \<noteq> []"
    unfolding run_def by (rule foldl_fire_nonempty) (simp add: defaultLineItems_def)
  then have "1 \<le> length (run uuid events)"
    by (cases "run uuid events") simp_all
  then show ?thesis by simp
qed

theorem editor_never_empty_witness:
  "length (run ''u1'' [Remove 0, Add ''u2'', Remove 1, Remove 0, Remove 0]) = 1 \<and>
   length (defaultLineItems ''u1'') = 1 \<and>
   fire (defaultLineItems ''u1'') (Remove 0) = defaultLineItems ''u1''"
  using editor_never_empty
    [of "''u1''" "[Remove 0, Add ''u2'', Remove 1, Remove 0, Remove 0]" "defaultLineItems ''u1''" 0]
  by (simp add: run_def defaultLineItems_def addLineItem_def append'_def remove'_def)

text \<open>
  C8. Add appends one item: the new list is the old list, unchanged and in the same order,
  followed by one item that carries the generated id and the default values quantity 1,
  unitPrice 0 and vatRate 22, the defaults of the initial item; its length is the old
  length plus 1.
\<close>

theorem add_appends_default_item:
  "fire flds (Add uuid) =
     flds @ [\<lparr> id' = Some uuid, description = Some '''', quantity = Num (Fin 1),
               unitPrice = Num (Fin 0), vatRate = Num (Fin 22), vatNature = None \<rparr>] \<and>
   length (fire flds (Add uuid)) = length flds + 1 \<and>
   take (length flds) (fire flds (Add uuid)) = flds \<and>
   last (fire flds (Add uuid)) = hd (defaultLineItems uuid)"
  by (simp add: addLineItem_def append'_def newLineItem_def defaultLineItems_def)

section \<open>The validation schema: properties\<close>

subsection \<open>The issues of one field\<close>

lemma errors_at_append: "errors_at q (xs @ ys) = errors_at q xs @ errors_at q ys"
  by (simp add: errors_at_def)

lemma errors_at_Nil: "errors_at q [] = []"
  by (simp add: errors_at_def)

lemma errors_at_nonempty: "errors_at p es \<noteq> [] \<Longrightarrow> es \<noteq> []"
  by (auto simp: errors_at_def)

lemma errors_at_same_path:
  "(\<And>e. e \<in> set xs \<Longrightarrow> path e = p) \<Longrightarrow> errors_at q xs = (if p = q then xs else [])"
  by (induction xs) (auto simp: errors_at_def)

text \<open>Every combinator reports under the path it was given.\<close>

lemma path_issues_at: "e \<in> set (issues_at p fs) \<Longrightarrow> path e = p"
  by (auto simp: issues_at_def)

lemma path_type_issue: "e \<in> set (type_issue p) \<Longrightarrow> path e = p"
  by (simp add: type_issue_def)

lemma path_z_string: "e \<in> set (z_string cs p v) \<Longrightarrow> path e = p"
  by (cases v) (auto simp: z_string_def dest: path_issues_at path_type_issue)

lemma path_z_enum: "e \<in> set (z_enum vs p v) \<Longrightarrow> path e = p"
  by (cases v) (auto simp: z_enum_def split: if_splits dest: path_type_issue)

lemma path_z_number: "e \<in> set (z_number cs p v) \<Longrightarrow> path e = p"
  by (cases v) (auto simp: z_number_def split: if_splits dest: path_issues_at path_type_issue)

lemma path_z_optional:
  "(\<And>e w. e \<in> set (inner p w) \<Longrightarrow> path e = p) \<Longrightarrow> e \<in> set (z_optional inner p v) \<Longrightarrow> path e = p"
  by (cases v) (auto simp: z_optional_def)

lemma path_z_optional_enum: "e \<in> set (z_optional (z_enum vs) p v) \<Longrightarrow> path e = p"
  by (erule path_z_optional [rotated]) (erule path_z_enum)

lemma errors_at_z_string: "errors_at q (z_string cs p v) = (if p = q then z_string cs p v else [])"
  by (rule errors_at_same_path) (rule path_z_string)

lemma errors_at_z_enum: "errors_at q (z_enum vs p v) = (if p = q then z_enum vs p v else [])"
  by (rule errors_at_same_path) (rule path_z_enum)

lemma errors_at_z_number: "errors_at q (z_number cs p v) = (if p = q then z_number cs p v else [])"
  by (rule errors_at_same_path) (rule path_z_number)

lemma errors_at_z_optional_string:
  "errors_at q (z_optional (z_string cs) p v) = (if p = q then z_optional (z_string cs) p v else [])"
  by (rule errors_at_same_path) (erule path_z_optional [rotated], erule path_z_string)

lemma errors_at_z_optional_enum:
  "errors_at q (z_optional (z_enum vs) p v) = (if p = q then z_optional (z_enum vs) p v else [])"
  by (rule errors_at_same_path) (rule path_z_optional_enum)

lemma errors_at_z_default_string:
  "errors_at q (z_default d (z_string cs) p v) = (if p = q then z_default d (z_string cs) p v else [])"
  unfolding z_default_def by (rule errors_at_z_string)

lemmas errors_at_simps = errors_at_append errors_at_z_string errors_at_z_enum errors_at_z_number
  errors_at_z_optional_string errors_at_z_optional_enum errors_at_z_default_string

text \<open>The issues of an item lie one key below its path, those of the array two below.\<close>

lemma path_lineItemSchema: "e \<in> set (lineItemSchema p item) \<Longrightarrow> \<exists>f. path e = p @ [Key f]"
  unfolding lineItemSchema_def
  by (auto dest: path_z_string path_z_number path_z_optional_enum)

lemma path_z_elements:
  "e \<in> set (z_elements lineItemSchema p j items) \<Longrightarrow>
     \<exists>k f. j \<le> k \<and> k < j + length items \<and> path e = p @ [Idx k, Key f]"
proof (induction items arbitrary: j)
  case Nil
  then show ?case by simp
next
  case (Cons x xs)
  from Cons.prems consider "e \<in> set (lineItemSchema (p @ [Idx j]) x)"
    | "e \<in> set (z_elements lineItemSchema p (Suc j) xs)"
    by auto
  then show ?case
  proof cases
    case 1
    then obtain f where "path e = (p @ [Idx j]) @ [Key f]"
      using path_lineItemSchema by blast
    then show ?thesis by auto
  next
    case 2
    then obtain k f where "Suc j \<le> k" "k < Suc j + length xs" "path e = p @ [Idx k, Key f]"
      using Cons.IH by blast
    then show ?thesis by (intro exI [of _ k] exI [of _ f]) simp
  qed
qed

lemma errors_at_field_lineItems:
  "errors_at [Key f] (lineItemsRule d) =
     (if f = ''lineItems'' \<and> lineItems d = []
      then [\<lparr> path = [Key ''lineItems''], code = too_small,
               message = Some ''At least one line item is required'' \<rparr>]
      else [])"
proof -
  have "errors_at [Key f] (z_elements lineItemSchema [Key ''lineItems''] 0 (lineItems d)) = []"
    unfolding errors_at_def filter_empty_conv
    using path_z_elements [of _ "[Key ''lineItems'']" 0 "lineItems d"] by fastforce
  then show ?thesis
    by (auto simp: lineItemsRule_def z_array_min_def errors_at_append) (simp_all add: errors_at_def)
qed

lemma errors_at_lineItemSchema_other:
  "j \<noteq> k \<Longrightarrow> errors_at (p @ [Idx k, Key f]) (lineItemSchema (p @ [Idx j]) x) = []"
  unfolding errors_at_def filter_empty_conv
  using path_lineItemSchema [of _ "p @ [Idx j]" x] by fastforce

lemma errors_at_z_elements:
  "errors_at (p @ [Idx k, Key f]) (z_elements lineItemSchema p j items) =
     (if j \<le> k \<and> k < j + length items
      then errors_at (p @ [Idx k, Key f]) (lineItemSchema (p @ [Idx k]) (items ! (k - j)))
      else [])"
proof (induction items arbitrary: j)
  case Nil
  then show ?case by (auto simp: errors_at_Nil)
next
  case (Cons x xs)
  show ?case
  proof (cases "j = k")
    case True
    then show ?thesis
      by (simp add: errors_at_append Cons.IH)
  next
    case False
    then show ?thesis
      by (auto simp: errors_at_append Cons.IH errors_at_lineItemSchema_other Suc_diff_Suc
          simp flip: Suc_diff_le)
  qed
qed

lemma errors_at_lineItems_elements:
  "errors_at [Key ''lineItems'', Idx k, Key f] (z_elements lineItemSchema [Key ''lineItems''] 0 items) =
     (if k < length items
      then errors_at [Key ''lineItems'', Idx k, Key f]
             (lineItemSchema [Key ''lineItems'', Idx k] (items ! k))
      else [])"
  using errors_at_z_elements [of "[Key ''lineItems'']" k f 0 items] by simp

text \<open>The issues of a field of the \<open>k\<close>-th item are those of the item's own schema.\<close>

lemma errors_at_item:
  "errors_at [Key ''lineItems'', Idx k, Key f] (invoiceSchema d) =
     (if k < length (lineItems d)
      then errors_at [Key ''lineItems'', Idx k, Key f]
             (lineItemSchema [Key ''lineItems'', Idx k] (lineItems d ! k))
      else [])"
proof -
  have "errors_at [Key ''lineItems'', Idx k, Key f] (lineItemsRule d) =
      errors_at [Key ''lineItems'', Idx k, Key f]
        (z_elements lineItemSchema [Key ''lineItems''] 0 (lineItems d))"
    by (simp add: lineItemsRule_def z_array_min_def errors_at_append) (simp add: errors_at_def)
  then show ?thesis
    by (simp add: invoiceSchema_def transmissionRules_def supplierRules_def customerRules_def
        documentRules_def errors_at_simps errors_at_lineItems_elements)
qed

lemma errors_at_quantity:
  "errors_at [Key ''lineItems'', Idx k, Key ''quantity''] (invoiceSchema d) =
     (if k < length (lineItems d)
      then z_number [n_min (1 / 100) (Some ''Quantity must be greater than 0'')]
             [Key ''lineItems'', Idx k, Key ''quantity''] (quantity (lineItems d ! k))
      else [])"
  by (simp add: errors_at_item lineItemSchema_def errors_at_simps)

lemma errors_at_vatNature:
  "errors_at [Key ''lineItems'', Idx k, Key ''vatNature''] (invoiceSchema d) =
     (if k < length (lineItems d)
      then z_optional (z_enum [''N1'', ''N2'', ''N3'', ''N4'', ''N5'', ''N6'', ''N7''])
             [Key ''lineItems'', Idx k, Key ''vatNature''] (vatNature (lineItems d ! k))
      else [])"
  by (simp add: errors_at_item lineItemSchema_def errors_at_simps)

lemma errors_at_pec:
  "errors_at [Key ''pecDestinatario''] (invoiceSchema d) =
     z_optional (z_string [s_email]) [Key ''pecDestinatario''] (pecDestinatario d)"
  by (simp add: invoiceSchema_def transmissionRules_def supplierRules_def customerRules_def
      documentRules_def errors_at_simps errors_at_field_lineItems)

lemma isl_safeParse: "isl (safeParse d) \<longleftrightarrow> invoiceSchema d \<noteq> []"
  by (cases "invoiceSchema d") (simp_all add: safeParse_def)

subsection \<open>The rules of the claims\<close>

lemma quantity_check_accepts:
  "z_number [n_min (1 / 100) (Some ''Quantity must be greater than 0'')] p v = [] \<longleftrightarrow>
     at_least v (1 / 100)"
proof (cases v)
  case (Num x)
  then show ?thesis
    by (cases x) (auto simp: z_number_def n_min_def issues_at_def type_issue_def)
qed (simp_all add: z_number_def type_issue_def)

lemma quantity_check_too_small:
  "less_than x (1 / 100) \<Longrightarrow>
   z_number [n_min (1 / 100) (Some ''Quantity must be greater than 0'')] p (Num x) =
     [\<lparr> path = p, code = too_small, message = Some ''Quantity must be greater than 0'' \<rparr>]"
  by (cases x) (simp_all add: z_number_def n_min_def issues_at_def)

lemma vatNature_check_accepts:
  "z_optional (z_enum vs) p v = [] \<longleftrightarrow> (case v of None \<Rightarrow> True | Some s \<Rightarrow> s \<in> set vs)"
  by (cases v) (simp_all add: z_optional_def z_enum_def)

lemma email_check_issues:
  "z_optional (z_string [s_email]) p v =
     (case v of None \<Rightarrow> []
      | Some s \<Rightarrow>
          if emailRegex s then [] else [\<lparr> path = p, code = invalid_string, message = None \<rparr>])"
  by (cases v) (simp_all add: z_optional_def z_string_def s_email_def issues_at_def)

lemmas schema_defs = invoiceSchema_def transmissionRules_def supplierRules_def customerRules_def
  documentRules_def lineItemsRule_def z_array_min_def lineItemSchema_def z_string_def
  z_optional_def z_default_def with_default_def z_enum_def z_number_def issues_at_def
  type_issue_def s_min_def s_length_def s_email_def n_min_def n_max_def

lemmas form_defs = filledForm_def consulenza_def defaultValues_def newLineItem_def
  defaultLineItems_def

text \<open>
  C2, as stated, fails: the quantity \<open>1/128\<close> is strictly greater than 0, and the record
  that holds it, valid in every other field, is rejected with the quantity error.
\<close>

theorem quantity_small_positive_counterexample:
  "above (Num (Fin (1 / 128))) 0 \<and>
   safeParse (filledForm \<lparr> lineItems := [consulenza \<lparr> quantity := Num (Fin (1 / 128)) \<rparr>] \<rparr>) =
     Inl [\<lparr> path = [Key ''lineItems'', Idx 0, Key ''quantity''], code = too_small,
            message = Some ''Quantity must be greater than 0'' \<rparr>]"
  by (simp add: safeParse_def schema_defs form_defs)

text \<open>
  C2, amended. For every candidate record and every line item in it, the quantity rule
  accepts the item if and only if its quantity is a number greater than or equal to 0.01:
  validation reports a quantity error exactly when the quantity is below 0.01 or is not a
  number, a number below 0.01 gets the one error "Quantity must be greater than 0", and a
  record with such an item is rejected.
\<close>

theorem quantity_rule_accepts:
  "k < length (lineItems d) \<longrightarrow>
     (errors_at [Key ''lineItems'', Idx k, Key ''quantity''] (invoiceSchema d) = [] \<longleftrightarrow>
        at_least (quantity (lineItems d ! k)) (1 / 100)) \<and>
     (quantity (lineItems d ! k) = Num x \<and> less_than x (1 / 100) \<longrightarrow>
        errors_at [Key ''lineItems'', Idx k, Key ''quantity''] (invoiceSchema d) =
          [\<lparr> path = [Key ''lineItems'', Idx k, Key ''quantity''], code = too_small,
             message = Some ''Quantity must be greater than 0'' \<rparr>]) \<and>
     (\<not> at_least (quantity (lineItems d ! k)) (1 / 100) \<longrightarrow> isl (safeParse d))"
  using errors_at_nonempty [of "[Key ''lineItems'', Idx k, Key ''quantity'']" "invoiceSchema d"]
  by (auto simp: errors_at_quantity quantity_check_accepts quantity_check_too_small isl_safeParse
      simp del: at_least.simps less_than.simps)

theorem quantity_rule_accepts_witness:
  "0 < length (lineItems filledForm) \<and>
   at_least (quantity (lineItems filledForm ! 0)) (1 / 100) \<and>
   errors_at [Key ''lineItems'', Idx 0, Key ''quantity''] (invoiceSchema filledForm) = [] \<and>
   quantity (lineItems (filledForm \<lparr> lineItems := [consulenza \<lparr> quantity := Num (Fin 0) \<rparr>] \<rparr>) ! 0) =
     Num (Fin 0) \<and>
   less_than (Fin 0) (1 / 100) \<and>
   isl (safeParse (filledForm \<lparr> lineItems := [consulenza \<lparr> quantity := Num (Fin 0) \<rparr>] \<rparr>))"
  using quantity_rule_accepts [of 0 filledForm]
    quantity_rule_accepts
      [of 0 "filledForm \<lparr> lineItems := [consulenza \<lparr> quantity := Num (Fin 0) \<rparr>] \<rparr>" "Fin 0"]
  by (simp add: form_defs)

text \<open>
  C3, as stated, fails: an item with vatRate 0 and no vatNature is accepted, and so is the
  record that holds it.
\<close>

theorem vatNature_not_required_counterexample:
  "vatRate (consulenza \<lparr> vatRate := Num (Fin 0) \<rparr>) = Num (Fin 0) \<and>
   vatNature (consulenza \<lparr> vatRate := Num (Fin 0) \<rparr>) = None \<and>
   safeParse (filledForm \<lparr> lineItems := [consulenza \<lparr> vatRate := Num (Fin 0) \<rparr>] \<rparr>) =
     Inr (filledForm \<lparr> lineItems := [consulenza \<lparr> vatRate := Num (Fin 0) \<rparr>] \<rparr>)"
  by (simp add: safeParse_def schema_defs form_defs)

text \<open>
  C3, amended. vatNature is optional for every line item, whatever its vatRate: validation
  reports no vatNature error if and only if vatNature is missing or is one of the seven
  codes N1 to N7.
\<close>

theorem vatNature_always_optional:
  "k < length (lineItems d) \<longrightarrow>
     (errors_at [Key ''lineItems'', Idx k, Key ''vatNature''] (invoiceSchema d) = [] \<longleftrightarrow>
        (case vatNature (lineItems d ! k) of None \<Rightarrow> True
         | Some s \<Rightarrow> s \<in> set [''N1'', ''N2'', ''N3'', ''N4'', ''N5'', ''N6'', ''N7'']))"
  by (simp add: errors_at_vatNature vatNature_check_accepts del: set_simps)

theorem vatNature_always_optional_witness:
  "0 < length (lineItems (filledForm \<lparr> lineItems := [consulenza \<lparr> vatRate := Num (Fin 0) \<rparr>] \<rparr>)) \<and>
   vatNature (lineItems (filledForm \<lparr> lineItems := [consulenza \<lparr> vatRate := Num (Fin 0) \<rparr>] \<rparr>) ! 0) = None \<and>
   errors_at [Key ''lineItems'', Idx 0, Key ''vatNature'']
     (invoiceSchema (filledForm \<lparr> lineItems := [consulenza \<lparr> vatRate := Num (Fin 0) \<rparr>] \<rparr>)) = [] \<and>
   errors_at [Key ''lineItems'', Idx 0, Key ''vatNature'']
     (invoiceSchema (filledForm \<lparr> lineItems := [consulenza \<lparr> vatNature := Some ''N8'' \<rparr>] \<rparr>)) \<noteq> []"
  using vatNature_always_optional
      [of 0 "filledForm \<lparr> lineItems := [consulenza \<lparr> vatRate := Num (Fin 0) \<rparr>] \<rparr>"]
    vatNature_always_optional
      [of 0 "filledForm \<lparr> lineItems := [consulenza \<lparr> vatNature := Some ''N8'' \<rparr>] \<rparr>"]
  by (simp add: form_defs)

text \<open>
  C7. A record whose pecDestinatario is present but does not match the email pattern, such
  as "not-an-email", is rejected with one error on that field; a record that omits
  pecDestinatario has no error on that field.
\<close>

theorem pec_invalid_rejected_absent_accepted:
  "(pecDestinatario d = Some s \<and> \<not> emailRegex s \<longrightarrow>
      errors_at [Key ''pecDestinatario''] (invoiceSchema d) =
        [\<lparr> path = [Key ''pecDestinatario''], code = invalid_string, message = None \<rparr>] \<and>
      isl (safeParse d)) \<and>
   (pecDestinatario d = None \<longrightarrow> errors_at [Key ''pecDestinatario''] (invoiceSchema d) = []) \<and>
   \<not> emailRegex ''not-an-email''"
  using errors_at_nonempty [of "[Key ''pecDestinatario'']" "invoiceSchema d"]
  by (auto simp: errors_at_pec email_check_issues isl_safeParse emailRegex_def)

theorem pec_invalid_rejected_absent_accepted_witness:
  "pecDestinatario (filledForm \<lparr> pecDestinatario := Some ''not-an-email'' \<rparr>) = Some ''not-an-email'' \<and>
   \<not> emailRegex ''not-an-email'' \<and>
   safeParse (filledForm \<lparr> pecDestinatario := Some ''not-an-email'' \<rparr>) =
     Inl [\<lparr> path = [Key ''pecDestinatario''], code = invalid_string, message = None \<rparr>] \<and>
   pecDestinatario filledForm = None \<and>
   safeParse filledForm = Inr filledForm"
  using pec_invalid_rejected_absent_accepted
      [of "filledForm \<lparr> pecDestinatario := Some ''not-an-email'' \<rparr>" "''not-an-email''"]
    pec_invalid_rejected_absent_accepted [of filledForm]
  by (simp add: safeParse_def schema_defs form_defs emailRegex_def)

text \<open>
  C10. A record whose pecDestinatario is the empty string is rejected with an error on that
  field: the rule accepts only an absent field or a text that matches the email pattern.
\<close>

theorem pec_empty_string_rejected:
  "(pecDestinatario d = Some '''' \<longrightarrow>
      errors_at [Key ''pecDestinatario''] (invoiceSchema d) =
        [\<lparr> path = [Key ''pecDestinatario''], code = invalid_string, message = None \<rparr>] \<and>
      isl (safeParse d)) \<and>
   (errors_at [Key ''pecDestinatario''] (invoiceSchema d) = [] \<longleftrightarrow>
      (case pecDestinatario d of None \<Rightarrow> True | Some s \<Rightarrow> emailRegex s))"
proof -
  have empty: "\<not> emailRegex ''''"
    by (simp add: emailRegex_def)
  show ?thesis
    using errors_at_nonempty [of "[Key ''pecDestinatario'']" "invoiceSchema d"] empty
    by (auto simp: errors_at_pec email_check_issues isl_safeParse split: option.splits)
qed

theorem pec_empty_string_rejected_witness:
  "pecDestinatario (filledForm \<lparr> pecDestinatario := Some '''' \<rparr>) = Some '''' \<and>
   safeParse (filledForm \<lparr> pecDestinatario := Some '''' \<rparr>) =
     Inl [\<lparr> path = [Key ''pecDestinatario''], code = invalid_string, message = None \<rparr>] \<and>
   emailRegex ''mario.rossi@pec.it'' \<and>
   safeParse (filledForm \<lparr> pecDestinatario := Some ''mario.rossi@pec.it'' \<rparr>) =
     Inr (filledForm \<lparr> pecDestinatario := Some ''mario.rossi@pec.it'' \<rparr>)"
  using pec_empty_string_rejected [of "filledForm \<lparr> pecDestinatario := Some '''' \<rparr>"]
  by (simp add: safeParse_def schema_defs form_defs emailRegex_def local_char_def local_last_def
      is_alnum_def is_alpha_def domain_ok_def label_ok_def tld_ok_def)

end
